theory Spec2Isabelle
  imports Complex_Main "HOL-Library.Sublist"
begin

section \<open>Falling shapes: the shape factory and the simulation loop of \<^verbatim>\<open>src/main.js\<close>\<close>

text \<open>
  The program is a single JavaScript class \<^verbatim>\<open>Game\<close> driving a PIXI stage. Its numbers are
  modelled as reals: finite values with exact arithmetic. The one place where the code can
  produce a non-number, a read past the end of an array in \<^verbatim>\<open>_polygonArea\<close>, is modelled
  with \<open>None\<close> standing for \<^verbatim>\<open>undefined\<close>/\<^verbatim>\<open>NaN\<close>. \<^verbatim>\<open>Math.random()\<close> is a parameter: a stream
  \<open>rnd\<close> of the draws a handler makes, in the order it makes them. \<^verbatim>\<open>performance.now()\<close>
  and the window size are parameters as well.
\<close>

subsection \<open>Drawing calls on a \<^verbatim>\<open>PIXI.Graphics\<close>\<close>

text \<open>
  A graphics object records the calls made on it. \<^verbatim>\<open>moveTo\<close>, \<^verbatim>\<open>lineTo\<close>, \<^verbatim>\<open>drawCircle\<close>,
  \<^verbatim>\<open>drawEllipse\<close>, \<^verbatim>\<open>drawPolygon\<close>, \<^verbatim>\<open>beginFill\<close> and \<^verbatim>\<open>endFill\<close> belong to the library;
  \<^verbatim>\<open>drawStar\<close> and \<^verbatim>\<open>_drawPolygon\<close> are the program's and are expressed through them.
\<close>

datatype cmd =
    BeginFill real
  | EndFill
  | MoveTo real real
  | LineTo real real
  | DrawCircle real real real
  | DrawEllipse real real real real
  | PixiDrawPolygon "real list"

record graphics =
  cmds :: "cmd list"
  x :: real
  y :: real
  area :: "real option"
  destroyed :: bool
  destroy_calls :: nat

definition MIN_SIZE :: real where "MIN_SIZE = 20"
definition MAX_SIZE :: real where "MAX_SIZE = 50"
definition GRAVITY_STEP :: real where "GRAVITY_STEP = 1"
definition SPAWN_STEP :: real where "SPAWN_STEP = 1"

text \<open>
  \<^verbatim>\<open>new PIXI.Graphics()\<close>: no drawing calls yet, at the origin, no \<^verbatim>\<open>_area\<close>, alive, and
  \<^verbatim>\<open>destroy()\<close> not yet called on it.
\<close>

definition new_Graphics :: graphics where
  "new_Graphics =
     \<lparr>cmds = [], x = 0, y = 0, area = None, destroyed = False, destroy_calls = 0\<rparr>"

definition call :: "cmd \<Rightarrow> graphics \<Rightarrow> graphics" where
  "call c g = g\<lparr>cmds := cmds g @ [c]\<rparr>"

text \<open>
  \<^verbatim>\<open>drawStar(x, y, points, radius)\<close>: nothing for fewer than two points; otherwise a
  \<^verbatim>\<open>moveTo\<close> and \<open>2 * points\<close> \<^verbatim>\<open>lineTo\<close>s, the radius alternating between \<open>radius\<close> (even
  \<open>i\<close>) and \<open>radius / 2\<close> (odd \<open>i\<close>), at angle \<open>i * (pi / points)\<close>.
\<close>

definition drawStar_vertex :: "real \<Rightarrow> real \<Rightarrow> nat \<Rightarrow> real \<Rightarrow> nat \<Rightarrow> cmd" where
  "drawStar_vertex cx cy points radius i =
     (let step = pi / real points;
          r = (if i mod 2 = 0 then radius else radius / 2);
          angle = real i * step
      in LineTo (cx + r * cos angle) (cy + r * sin angle))"

definition drawStar :: "real \<Rightarrow> real \<Rightarrow> nat \<Rightarrow> real \<Rightarrow> graphics \<Rightarrow> graphics" where
  "drawStar cx cy points radius g =
     (if points < 2 then g
      else g\<lparr>cmds := cmds g @ [MoveTo (cx + radius) cy]
                  @ map (drawStar_vertex cx cy points radius) [0..<2 * points]\<rparr>)"

text \<open>
  \<^verbatim>\<open>_drawPolygon(g, radius, sides)\<close>: \<^verbatim>\<open>moveTo(radius, 0)\<close>, then for \<open>i = 1, \<dots>, sides\<close> a
  \<^verbatim>\<open>lineTo\<close> at angle \<open>i * step\<close>, \<open>step = 2 pi / sides\<close>.
\<close>

definition drawPolygon_vertex :: "real \<Rightarrow> nat \<Rightarrow> nat \<Rightarrow> cmd" where
  "drawPolygon_vertex radius sides i =
     (let step = (pi * 2) / real sides
      in LineTo (radius * cos (real i * step)) (radius * sin (real i * step)))"

definition drawPolygon :: "graphics \<Rightarrow> real \<Rightarrow> nat \<Rightarrow> graphics" where
  "drawPolygon g radius sides =
     g\<lparr>cmds := cmds g @ [MoveTo radius 0]
             @ map (drawPolygon_vertex radius sides) [1..<Suc sides]\<rparr>"

subsection \<open>Areas\<close>

text \<open>\<^verbatim>\<open>_estimateArea(type, size)\<close>, with its \<^verbatim>\<open>default\<close> branch.\<close>

definition estimateArea :: "int \<Rightarrow> real \<Rightarrow> real" where
  "estimateArea type sz =
     (if type = 0 then (sqrt 3 / 4) * sz ^ 2
      else if type = 1 then sz ^ 2
      else if type = 2 then (5 / 4) * sz ^ 2 * tan (pi / 5)
      else if type = 3 then (3 * sqrt 3 / 2) * sz ^ 2
      else if type = 4 then pi * sz ^ 2
      else if type = 5 then pi * sz * (sz / 2)
      else if type = 6 then (5 / 2) * sz ^ 2 * sin (2 * pi / 5)
      else sz ^ 2)"

text \<open>
  An array read \<^verbatim>\<open>points[i]\<close>: \<^verbatim>\<open>undefined\<close> past the end, which turns every
  arithmetic result it enters into \<^verbatim>\<open>NaN\<close>; both are \<open>None\<close> here.
\<close>

definition js_get :: "real list \<Rightarrow> nat \<Rightarrow> real option" where
  "js_get xs i = (if i < length xs then Some (xs ! i) else None)"

definition cross_term :: "real option \<Rightarrow> real option \<Rightarrow> real option \<Rightarrow> real option \<Rightarrow> real option" where
  "cross_term x1 y1 x2 y2 =
     (case (x1, y1, x2, y2) of
        (Some a, Some b, Some c, Some d) \<Rightarrow> Some (a * d - c * b)
      | _ \<Rightarrow> None)"

definition js_add :: "real option \<Rightarrow> real option \<Rightarrow> real option" where
  "js_add a b = (case (a, b) of (Some u, Some v) \<Rightarrow> Some (u + v) | _ \<Rightarrow> None)"

text \<open>
  \<^verbatim>\<open>_polygonArea(points)\<close> over the flat array \<open>[x0, y0, x1, y1, \<dots>]\<close>: the loop
  \<^verbatim>\<open>for (let i = 0; i < points.length; i += 2)\<close> with its accumulator, then
  \<^verbatim>\<open>Math.abs(area / 2)\<close>.
\<close>

function polygonArea_loop :: "real list \<Rightarrow> nat \<Rightarrow> real option \<Rightarrow> real option" where
  "polygonArea_loop points i acc =
     (if i < length points then
        polygonArea_loop points (i + 2)
          (js_add acc
             (cross_term (js_get points i) (js_get points (i + 1))
                (js_get points ((i + 2) mod length points))
                (js_get points ((i + 3) mod length points))))
      else acc)"
  by pat_completeness auto
termination
  by (relation "measure (\<lambda>(points, i, acc). length points - i)") auto

declare polygonArea_loop.simps [simp del]

definition polygonArea :: "real list \<Rightarrow> real option" where
  "polygonArea points = map_option (\<lambda>a. \<bar>a / 2\<bar>) (polygonArea_loop points 0 (Some 0))"

subsection \<open>The two factories\<close>

text \<open>
  \<^verbatim>\<open>_createRandomShape()\<close> draws, in this order, the fill colour, the size and the type.
\<close>

definition createRandomShape :: "(nat \<Rightarrow> real) \<Rightarrow> graphics" where
  "createRandomShape rnd =
     (let g0 = call (BeginFill (rnd 0 * 16777215)) new_Graphics;
          sz = MIN_SIZE + rnd 1 * (MAX_SIZE - MIN_SIZE);
          type = \<lfloor>rnd 2 * 7\<rfloor>;
          g1 = (if type = 0 then drawPolygon g0 sz 3
                else if type = 1 then drawPolygon g0 sz 4
                else if type = 2 then drawPolygon g0 sz 5
                else if type = 3 then drawPolygon g0 sz 6
                else if type = 4 then call (DrawCircle 0 0 sz) g0
                else if type = 5 then call (DrawEllipse 0 0 sz (sz / 2)) g0
                else if type = 6 then drawStar 0 0 5 sz g0
                else g0);
          g2 = call EndFill g1
      in g2\<lparr>area := Some (estimateArea type sz)\<rparr>)"

text \<open>
  \<^verbatim>\<open>_createIrregularShape()\<close> draws the fill colour, the number of points, the base radius,
  and then one radius factor per vertex.
\<close>

definition irregular_vertex :: "(nat \<Rightarrow> real) \<Rightarrow> nat \<Rightarrow> real \<Rightarrow> nat \<Rightarrow> real list" where
  "irregular_vertex rnd numPoints radius i =
     (let angle = (pi * 2 / real numPoints) * real i;
          r = radius * (0.5 + rnd (3 + i))
      in [r * cos angle, r * sin angle])"

definition createIrregularShape :: "(nat \<Rightarrow> real) \<Rightarrow> graphics" where
  "createIrregularShape rnd =
     (let g0 = call (BeginFill (rnd 0 * 16777215)) new_Graphics;
          numPoints = nat (5 + \<lfloor>rnd 1 * 5\<rfloor>);
          radius = MIN_SIZE + rnd 2 * (MAX_SIZE - MIN_SIZE);
          points = concat (map (irregular_vertex rnd numPoints radius) [0..<numPoints]);
          g1 = call (PixiDrawPolygon points) g0;
          g2 = call EndFill g1
      in g2\<lparr>area := polygonArea points\<rparr>)"

subsection \<open>The game object\<close>

text \<open>
  \<open>objs\<close> is the store of every \<^verbatim>\<open>PIXI.Graphics\<close> the program has created; a reference
  to a shape is its index there, so that \<^verbatim>\<open>indexOf\<close> compares identities and a
  \<^verbatim>\<open>destroy()\<close> is seen through every reference. \<open>shapes\<close> is the array \<^verbatim>\<open>this.shapes\<close> of
  references. The four \<open>El\<close> fields are the \<^verbatim>\<open>textContent\<close> of the cached DOM elements,
  \<open>None\<close> until the program writes them. Of the renderer only \<^verbatim>\<open>destroy()\<close> is modelled:
  the flag \<open>destroyed\<close> says that the object has been destroyed and \<open>destroy_calls\<close>
  counts the calls the program has made on it, since the program can call it on an
  object that is already destroyed. What the library does inside such a call is not in
  the source. \<^verbatim>\<open>eventMode\<close>, \<^verbatim>\<open>cursor\<close>, \<^verbatim>\<open>stage.addChild\<close>, \<^verbatim>\<open>hitArea\<close> and
  \<^verbatim>\<open>renderer.resize\<close> have no effect on the fields below.
\<close>

record game =
  width :: real
  height :: real
  gravity :: real
  shapes :: "nat list"
  spawnPerSecond :: real
  lastSpawn :: real
  objs :: "graphics list"
  shapesCountEl :: "nat option"
  shapesAreaEl :: "int option"
  spawnRateEl :: "real option"
  gravityValEl :: "real option"

record opts =
  opt_gravity :: "real option"
  opt_spawnPerSecond :: "real option"

text \<open>
  The constructor: the singleton check, then \<^verbatim>\<open>opts.gravity ?? 1\<close> and
  \<^verbatim>\<open>opts.spawnPerSecond ?? 1\<close> stored as they come.
\<close>

definition Game_new :: "game option \<Rightarrow> opts \<Rightarrow> real \<Rightarrow> real \<Rightarrow> game" where
  "Game_new instance os innerWidth innerHeight =
     (case instance of
        Some g \<Rightarrow> g
      | None \<Rightarrow>
          \<lparr>width = innerWidth, height = innerHeight,
           gravity = (case opt_gravity os of None \<Rightarrow> 1 | Some v \<Rightarrow> v),
           shapes = [],
           spawnPerSecond = (case opt_spawnPerSecond os of None \<Rightarrow> 1 | Some v \<Rightarrow> v),
           lastSpawn = 0,
           objs = [],
           shapesCountEl = None, shapesAreaEl = None,
           spawnRateEl = None, gravityValEl = None\<rparr>)"

definition updateControls :: "game \<Rightarrow> game" where
  "updateControls g =
     g\<lparr>spawnRateEl := Some (spawnPerSecond g), gravityValEl := Some (gravity g)\<rparr>"

text \<open>The four \<^verbatim>\<open>onclick\<close> handlers installed by \<^verbatim>\<open>_setupControls\<close>.\<close>

definition spawn_inc :: "game \<Rightarrow> game" where
  "spawn_inc g = updateControls (g\<lparr>spawnPerSecond := spawnPerSecond g + SPAWN_STEP\<rparr>)"

definition spawn_dec :: "game \<Rightarrow> game" where
  "spawn_dec g = updateControls (g\<lparr>spawnPerSecond := max 0 (spawnPerSecond g - SPAWN_STEP)\<rparr>)"

definition grav_inc :: "game \<Rightarrow> game" where
  "grav_inc g = updateControls (g\<lparr>gravity := gravity g + GRAVITY_STEP\<rparr>)"

definition grav_dec :: "game \<Rightarrow> game" where
  "grav_dec g = updateControls (g\<lparr>gravity := max 0 (gravity g - GRAVITY_STEP)\<rparr>)"

definition setupControls :: "game \<Rightarrow> game" where
  "setupControls g = updateControls g"

text \<open>
  \<^verbatim>\<open>shape.destroy()\<close> on the object behind reference \<open>r\<close>: the object is destroyed, and
  the call is counted.
\<close>

definition destroy :: "nat \<Rightarrow> graphics list \<Rightarrow> graphics list" where
  "destroy r os =
     os[r := (os ! r)\<lparr>destroyed := True, destroy_calls := Suc (destroy_calls (os ! r))\<rparr>]"

text \<open>
  \<^verbatim>\<open>_updateStats\<close>: the length of the array, and the left-to-right \<^verbatim>\<open>reduce\<close> of
  \<^verbatim>\<open>s._area || 0\<close> (a zero or missing area counts as 0), rounded by \<^verbatim>\<open>Math.round\<close>.
\<close>

definition area_or_0 :: "graphics \<Rightarrow> real" where
  "area_or_0 s = (case area s of None \<Rightarrow> 0 | Some v \<Rightarrow> (if v = 0 then 0 else v))"

definition totalArea :: "game \<Rightarrow> real" where
  "totalArea g = fold (\<lambda>r sum. sum + area_or_0 (objs g ! r)) (shapes g) 0"

definition Math_round :: "real \<Rightarrow> int" where
  "Math_round v = \<lfloor>v + 1 / 2\<rfloor>"

definition updateStats :: "game \<Rightarrow> game" where
  "updateStats g =
     g\<lparr>shapesCountEl := Some (length (shapes g)),
       shapesAreaEl := Some (Math_round (totalArea g))\<rparr>"

text \<open>\<^verbatim>\<open>_resetGame\<close> and \<^verbatim>\<open>_resize\<close>.\<close>

definition resetGame :: "game \<Rightarrow> game" where
  "resetGame g =
     updateStats (g\<lparr>objs := fold destroy (shapes g) (objs g), shapes := [], lastSpawn := 0\<rparr>)"

definition resize :: "real \<Rightarrow> real \<Rightarrow> game \<Rightarrow> game" where
  "resize innerWidth innerHeight g = resetGame (g\<lparr>width := innerWidth, height := innerHeight\<rparr>)"

text \<open>
  \<^verbatim>\<open>_spawnShape(x, y, allowIrregular)\<close>. \<^verbatim>\<open>allowIrregular && Math.random() < 0.3\<close> draws
  only when \<open>allowIrregular\<close> holds. The new object gets the next free reference and is
  pushed at the end of \<open>shapes\<close>.
\<close>

definition spawnShape :: "real \<Rightarrow> real \<Rightarrow> bool \<Rightarrow> (nat \<Rightarrow> real) \<Rightarrow> game \<Rightarrow> game" where
  "spawnShape px py allowIrregular rnd g =
     (let shape = (if allowIrregular \<and> rnd 0 < 0.3
                   then createIrregularShape (\<lambda>i. rnd (Suc i))
                   else createRandomShape (\<lambda>i. rnd (if allowIrregular then Suc i else i)));
          shape' = shape\<lparr>x := px, y := py\<rparr>
      in g\<lparr>objs := objs g @ [shape'], shapes := shapes g @ [length (objs g)]\<rparr>)"

text \<open>\<^verbatim>\<open>Array.prototype.indexOf\<close> (\<open>- 1\<close> when absent) and \<^verbatim>\<open>splice(idx, 1)\<close>.\<close>

fun indexOf :: "nat list \<Rightarrow> nat \<Rightarrow> int" where
  "indexOf [] v = - 1"
| "indexOf (a # as) v =
     (if a = v then 0
      else (let k = indexOf as v in if k = - 1 then - 1 else k + 1))"

definition splice1 :: "nat list \<Rightarrow> int \<Rightarrow> nat list" where
  "splice1 xs idx = take (nat idx) xs @ drop (nat idx + 1) xs"

definition removeShape :: "nat \<Rightarrow> game \<Rightarrow> game" where
  "removeShape shape g =
     (let idx = indexOf (shapes g) shape;
          g' = (if idx \<noteq> - 1 then g\<lparr>shapes := splice1 (shapes g) idx\<rparr> else g)
      in g'\<lparr>objs := destroy shape (objs g')\<rparr>)"

subsection \<open>One tick: \<^verbatim>\<open>_update(delta)\<close>\<close>

definition spawnInterval :: "game \<Rightarrow> real" where
  "spawnInterval g = 1000 / (if spawnPerSecond g = 0 then 1 else spawnPerSecond g)"

text \<open>
  The spawn step. \<open>now\<close> is \<^verbatim>\<open>performance.now()\<close>; \<open>rnd 0\<close> is the draw for the x
  coordinate, made before \<^verbatim>\<open>_spawnShape\<close> is entered.
\<close>

definition spawnPhase :: "real \<Rightarrow> (nat \<Rightarrow> real) \<Rightarrow> game \<Rightarrow> game" where
  "spawnPhase now rnd g =
     (if now - lastSpawn g \<ge> spawnInterval g then
        (let g' = g\<lparr>lastSpawn := now\<rparr>
         in if spawnPerSecond g' > 0
            then spawnShape (rnd 0 * width g') (- 50) False (\<lambda>i. rnd (Suc i)) g'
            else g')
      else g)"

text \<open>\<^verbatim>\<open>this.shapes.forEach(shape => shape.y += this.gravity * delta)\<close>.\<close>

definition fall :: "real \<Rightarrow> nat \<Rightarrow> graphics list \<Rightarrow> graphics list" where
  "fall d r os = os[r := (os ! r)\<lparr>y := y (os ! r) + d\<rparr>]"

definition gravityPhase :: "real \<Rightarrow> game \<Rightarrow> game" where
  "gravityPhase delta g = g\<lparr>objs := fold (fall (gravity g * delta)) (shapes g) (objs g)\<rparr>"

text \<open>
  The \<^verbatim>\<open>filter\<close> with its callback: a shape with \<open>y\<close> above the limit is destroyed and left out,
  any other is kept, in the order of the array.
\<close>

fun cull :: "real \<Rightarrow> nat list \<Rightarrow> graphics list \<Rightarrow> nat list \<times> graphics list" where
  "cull limit [] os = ([], os)"
| "cull limit (r # rs) os =
     (if y (os ! r) > limit
      then cull limit rs (destroy r os)
      else (let (kept, os') = cull limit rs os in (r # kept, os')))"

definition cullPhase :: "game \<Rightarrow> game" where
  "cullPhase g =
     (let (kept, os') = cull (height g + 100) (shapes g) (objs g)
      in g\<lparr>shapes := kept, objs := os'\<rparr>)"

definition update :: "real \<Rightarrow> real \<Rightarrow> (nat \<Rightarrow> real) \<Rightarrow> game \<Rightarrow> game" where
  "update now delta rnd g = updateStats (cullPhase (gravityPhase delta (spawnPhase now rnd g)))"

subsection \<open>Everything that can happen to a mounted game\<close>

text \<open>
  \<^verbatim>\<open>mount\<close> wires the handlers: a ticker callback, a click on the empty stage, a click on
  a shape, the four buttons and the window's resize.
\<close>

datatype event =
    Tick real real "nat \<Rightarrow> real"
  | StageClick real real "nat \<Rightarrow> real"
  | ShapeClick nat
  | Resize real real
  | SpawnInc
  | SpawnDec
  | GravInc
  | GravDec

fun fire :: "event \<Rightarrow> game \<Rightarrow> game" where
  "fire (Tick now delta rnd) g = update now delta rnd g"
| "fire (StageClick px py rnd) g = spawnShape px py True rnd g"
| "fire (ShapeClick r) g = removeShape r g"
| "fire (Resize w h) g = resize w h g"
| "fire SpawnInc g = spawn_inc g"
| "fire SpawnDec g = spawn_dec g"
| "fire GravInc g = grav_inc g"
| "fire GravDec g = grav_dec g"

definition mount :: "real \<Rightarrow> real \<Rightarrow> game \<Rightarrow> game" where
  "mount innerWidth innerHeight g = resize innerWidth innerHeight (setupControls g)"

text \<open>
  The shape of a well-formed state: no reference occurs twice in \<open>shapes\<close> and each points
  into the store. The constructor establishes it and every handler keeps it, so every
  state the mounted program reaches has it (\<open>well_formed_reachable\<close> below).
\<close>

definition well_formed :: "game \<Rightarrow> bool" where
  "well_formed g \<longleftrightarrow> distinct (shapes g) \<and> (\<forall>r \<in> set (shapes g). r < length (objs g))"

subsection \<open>The specification's kinds and closed forms\<close>

text \<open>
  The seven kinds of the specification, in the order in which it lists them, and the area
  it gives for each, written from its words: triangle \<open>(sqrt 3 / 4) size^2\<close>, square
  \<open>size^2\<close>, pentagon \<open>(5/4) size^2 tan(pi/5)\<close>, hexagon \<open>(3 sqrt 3 / 2) size^2\<close>,
  circle \<open>pi size^2\<close>, ellipse \<open>pi size (size/2)\<close>, star \<open>(5/2) size^2 sin(2 pi/5)\<close>.
\<close>

datatype kind = Triangle | Square | Pentagon | Hexagon | Circle | Ellipse | Star

definition kinds :: "kind list" where
  "kinds = [Triangle, Square, Pentagon, Hexagon, Circle, Ellipse, Star]"

definition spec_area :: "kind \<Rightarrow> real \<Rightarrow> real" where
  "spec_area k sz =
     (case k of
        Triangle \<Rightarrow> (sqrt 3 / 4) * sz ^ 2
      | Square \<Rightarrow> sz ^ 2
      | Pentagon \<Rightarrow> (5 / 4) * sz ^ 2 * tan (pi / 5)
      | Hexagon \<Rightarrow> (3 * sqrt 3 / 2) * sz ^ 2
      | Circle \<Rightarrow> pi * sz ^ 2
      | Ellipse \<Rightarrow> pi * sz * (sz / 2)
      | Star \<Rightarrow> (5 / 2) * sz ^ 2 * sin (2 * pi / 5))"

text \<open>
  What a finished list of drawing calls shows: a circle or an ellipse with its first
  radius, or a path of one \<^verbatim>\<open>moveTo\<close> and \<open>n\<close> \<^verbatim>\<open>lineTo\<close>s, which is a polygon of 3, 4, 5 or
  6 sides or, with the 10 vertices of \<^verbatim>\<open>drawStar(0, 0, 5, size)\<close>, the star; the size of a
  path is the x coordinate of its \<^verbatim>\<open>moveTo\<close>.
\<close>

definition is_LineTo :: "cmd \<Rightarrow> bool" where
  "is_LineTo c = (case c of LineTo a b \<Rightarrow> True | _ \<Rightarrow> False)"

definition kind_of_sides :: "nat \<Rightarrow> kind option" where
  "kind_of_sides n =
     (if n = 3 then Some Triangle else if n = 4 then Some Square
      else if n = 5 then Some Pentagon else if n = 6 then Some Hexagon
      else if n = 10 then Some Star else None)"

definition drawn_shape :: "cmd list \<Rightarrow> (kind \<times> real) option" where
  "drawn_shape cs =
     (case cs of
        [BeginFill c, DrawCircle a b r, EndFill] \<Rightarrow> Some (Circle, r)
      | [BeginFill c, DrawEllipse a b w h, EndFill] \<Rightarrow> Some (Ellipse, w)
      | BeginFill c # MoveTo a b # rest \<Rightarrow>
          (if rest \<noteq> [] \<and> last rest = EndFill \<and> list_all is_LineTo (butlast rest)
           then map_option (\<lambda>k. (k, a)) (kind_of_sides (length (butlast rest)))
           else None)
      | _ \<Rightarrow> None)"

text \<open>The points of a path, in the order of its \<^verbatim>\<open>moveTo\<close> and \<^verbatim>\<open>lineTo\<close> calls.\<close>

fun vertices :: "cmd list \<Rightarrow> (real \<times> real) list" where
  "vertices [] = []"
| "vertices (MoveTo a b # cs) = (a, b) # vertices cs"
| "vertices (LineTo a b # cs) = (a, b) # vertices cs"
| "vertices (_ # cs) = vertices cs"

text \<open>The point at angle \<open>k * (2 pi / sides)\<close> on the circle of the given radius.\<close>

definition ring_point :: "real \<Rightarrow> nat \<Rightarrow> nat \<Rightarrow> real \<times> real" where
  "ring_point radius sides k =
     (radius * cos (real k * (2 * pi / real sides)),
      radius * sin (real k * (2 * pi / real sides)))"

text \<open>
  Two streams of draws: one gives \<^verbatim>\<open>size = 30\<close> and \<^verbatim>\<open>type = 1\<close>, the other
  \<^verbatim>\<open>size = 20\<close> and \<^verbatim>\<open>type = 4\<close>.
\<close>

definition square_rnd :: "nat \<Rightarrow> real" where
  "square_rnd i = (if i = 1 then 1 / 3 else 1 / 5)"

definition circle_rnd :: "nat \<Rightarrow> real" where
  "circle_rnd i = (if i = 1 then 0 else 3 / 5)"

subsection \<open>The shoelace formula of the specification\<close>

text \<open>
  A list of vertices laid out as the flat array \<^verbatim>\<open>_polygonArea\<close> reads, and the
  specification's formula: the sum of the cross terms \<open>x1 * y2 - x2 * y1\<close> over consecutive
  vertex pairs, wrapping around, halved, in absolute value.
\<close>

definition flat :: "(real \<times> real) list \<Rightarrow> real list" where
  "flat vs = concat (map (\<lambda>(a, b). [a, b]) vs)"

definition cross_at :: "(real \<times> real) list \<Rightarrow> nat \<Rightarrow> real" where
  "cross_at vs k =
     fst (vs ! k) * snd (vs ! (Suc k mod length vs))
     - fst (vs ! (Suc k mod length vs)) * snd (vs ! k)"

definition shoelace :: "(real \<times> real) list \<Rightarrow> real" where
  "shoelace vs = \<bar>(\<Sum>k < length vs. cross_at vs k) / 2\<bar>"

text \<open>The cross term of two points.\<close>

definition cr :: "real \<times> real \<Rightarrow> real \<times> real \<Rightarrow> real" where
  "cr u v = fst u * snd v - fst v * snd u"

subsection \<open>A small reachable state\<close>

text \<open>
  The program's own start, \<^verbatim>\<open>new Game({ gravity: 1, spawnPerSecond: 1 })\<close> mounted in an
  800 by 600 window, followed by two clicks on the empty stage. The theorems below are
  instantiated at it.
\<close>

definition demo_rnd :: "nat \<Rightarrow> real" where
  "demo_rnd i = 1 / 2"

definition demo_game :: game where
  "demo_game =
     fire (StageClick 20 100 demo_rnd)
       (fire (StageClick 10 695 demo_rnd)
          (mount 800 600
             (Game_new None \<lparr>opt_gravity = Some 1, opt_spawnPerSecond = Some 1\<rparr> 800 600)))"

section \<open>Facts about the store and the array helpers\<close>

lemma length_destroy [simp]: "length (destroy r os) = length os"
  by (simp add: destroy_def)

lemma y_destroy [simp]: "y (destroy r os ! k) = y (os ! k)"
  by (cases "r < length os") (simp_all add: destroy_def nth_list_update list_update_beyond)

lemma x_destroy [simp]: "x (destroy r os ! k) = x (os ! k)"
  by (cases "r < length os") (simp_all add: destroy_def nth_list_update list_update_beyond)

lemma area_destroy [simp]: "area (destroy r os ! k) = area (os ! k)"
  by (cases "r < length os") (simp_all add: destroy_def nth_list_update list_update_beyond)

lemma destroy_calls_destroy:
  "k < length os \<Longrightarrow>
   destroy_calls (destroy r os ! k)
   = (if k = r then Suc (destroy_calls (os ! k)) else destroy_calls (os ! k))"
  by (simp add: destroy_def nth_list_update)

lemma destroyed_destroy:
  "k < length os \<Longrightarrow> destroyed (destroy r os ! k) \<longleftrightarrow> k = r \<or> destroyed (os ! k)"
  by (cases "r < length os") (auto simp: destroy_def nth_list_update list_update_beyond)

lemma length_fold_destroy [simp]: "length (fold destroy rs os) = length os"
  by (induction rs arbitrary: os) simp_all

lemma y_fold_destroy [simp]: "y (fold destroy rs os ! k) = y (os ! k)"
  by (induction rs arbitrary: os) simp_all

lemma x_fold_destroy [simp]: "x (fold destroy rs os ! k) = x (os ! k)"
  by (induction rs arbitrary: os) simp_all

lemma destroyed_fold_destroy:
  "k < length os \<Longrightarrow> destroyed (fold destroy rs os ! k) \<longleftrightarrow> k \<in> set rs \<or> destroyed (os ! k)"
  by (induction rs arbitrary: os) (auto simp: destroyed_destroy)

lemma cull_kept: "fst (cull limit rs os) = filter (\<lambda>r. \<not> y (os ! r) > limit) rs"
  by (induction rs arbitrary: os) (simp_all add: split_beta)

lemma cull_store:
  "snd (cull limit rs os) = fold destroy (filter (\<lambda>r. y (os ! r) > limit) rs) os"
  by (induction rs arbitrary: os) (simp_all add: split_beta)

lemma length_fall [simp]: "length (fall d r os) = length os"
  by (simp add: fall_def)

lemma length_fold_fall [simp]: "length (fold (fall d) rs os) = length os"
  by (induction rs arbitrary: os) simp_all

lemma x_fall [simp]: "x (fall d r os ! k) = x (os ! k)"
  by (cases "r < length os") (simp_all add: fall_def nth_list_update list_update_beyond)

lemma x_fold_fall [simp]: "x (fold (fall d) rs os ! k) = x (os ! k)"
  by (induction rs arbitrary: os) simp_all

lemma y_fall:
  "k < length os \<Longrightarrow> y (fall d r os ! k) = (if k = r then y (os ! k) + d else y (os ! k))"
  by (simp add: fall_def nth_list_update)

lemma y_fold_fall:
  "distinct rs \<Longrightarrow> k < length os \<Longrightarrow>
   y (fold (fall d) rs os ! k) = (if k \<in> set rs then y (os ! k) + d else y (os ! k))"
  by (induction rs arbitrary: os) (auto simp: y_fall)

lemma indexOf_ge: "- 1 \<le> indexOf xs v"
  by (induction xs) (auto simp: Let_def)

lemma indexOf_absent: "indexOf xs v = - 1 \<longleftrightarrow> v \<notin> set xs"
proof (induction xs)
  case Nil
  show ?case by simp
next
  case (Cons a as)
  have "indexOf as v + 1 \<noteq> - 1" using indexOf_ge [of as v] by linarith
  with Cons show ?case by (auto simp: Let_def)
qed

lemma splice1_indexOf: "v \<in> set xs \<Longrightarrow> splice1 xs (indexOf xs v) = remove1 v xs"
proof (induction xs)
  case Nil
  then show ?case by simp
next
  case (Cons a as)
  show ?case
  proof (cases "a = v")
    case True
    then show ?thesis by (simp add: splice1_def)
  next
    case False
    with Cons.prems have mem: "v \<in> set as" by simp
    then have "indexOf as v \<noteq> - 1" by (simp add: indexOf_absent)
    with indexOf_ge [of as v] have nonneg: "0 \<le> indexOf as v" by linarith
    from Cons.IH [OF mem] nonneg False show ?thesis
      by (simp add: splice1_def Let_def nat_add_distrib)
  qed
qed

subsection \<open>The phases of a tick\<close>

lemma shapes_updateStats [simp]: "shapes (updateStats g) = shapes g"
  and objs_updateStats [simp]: "objs (updateStats g) = objs g"
  and height_updateStats [simp]: "height (updateStats g) = height g"
  by (simp_all add: updateStats_def)

lemma shapes_gravityPhase [simp]: "shapes (gravityPhase delta g) = shapes g"
  and height_gravityPhase [simp]: "height (gravityPhase delta g) = height g"
  and length_objs_gravityPhase [simp]: "length (objs (gravityPhase delta g)) = length (objs g)"
  by (simp_all add: gravityPhase_def)

lemma shapes_cullPhase:
  "shapes (cullPhase g) = filter (\<lambda>r. \<not> y (objs g ! r) > height g + 100) (shapes g)"
  using cull_kept [of "height g + 100" "shapes g" "objs g"]
  by (simp add: cullPhase_def split_beta)

lemma objs_cullPhase:
  "objs (cullPhase g) = fold destroy (filter (\<lambda>r. y (objs g ! r) > height g + 100) (shapes g)) (objs g)"
  using cull_store [of "height g + 100" "shapes g" "objs g"]
  by (simp add: cullPhase_def split_beta)

lemma height_cullPhase [simp]: "height (cullPhase g) = height g"
  by (simp add: cullPhase_def split_beta)

lemma spawnShape_fields [simp]:
  "shapes (spawnShape px py a rnd g) = shapes g @ [length (objs g)]"
  "length (objs (spawnShape px py a rnd g)) = Suc (length (objs g))"
  "height (spawnShape px py a rnd g) = height g"
  by (simp_all add: spawnShape_def Let_def)

lemma objs_spawnShape_old:
  "r < length (objs g) \<Longrightarrow> objs (spawnShape px py a rnd g) ! r = objs g ! r"
  by (simp add: spawnShape_def Let_def nth_append)

lemma well_formed_spawnShape: "well_formed g \<Longrightarrow> well_formed (spawnShape px py a rnd g)"
  by (auto simp: well_formed_def less_Suc_eq)

lemma well_formed_spawnPhase: "well_formed g \<Longrightarrow> well_formed (spawnPhase now rnd g)"
  by (auto simp: spawnPhase_def Let_def well_formed_def less_Suc_eq)

lemma well_formed_gravityPhase: "well_formed g \<Longrightarrow> well_formed (gravityPhase delta g)"
  by (simp add: well_formed_def)

lemma well_formed_cullPhase: "well_formed g \<Longrightarrow> well_formed (cullPhase g)"
  by (simp add: well_formed_def shapes_cullPhase objs_cullPhase)

lemma well_formed_updateStats: "well_formed g \<Longrightarrow> well_formed (updateStats g)"
  by (simp add: well_formed_def)

lemma well_formed_update: "well_formed g \<Longrightarrow> well_formed (update now delta rnd g)"
  by (simp add: update_def well_formed_updateStats well_formed_cullPhase well_formed_gravityPhase well_formed_spawnPhase)

lemma y_gravityPhase:
  assumes "well_formed g" "r < length (objs g)"
  shows "y (objs (gravityPhase delta g) ! r) =
         (if r \<in> set (shapes g) then y (objs g ! r) + gravity g * delta else y (objs g ! r))"
  using assms by (simp add: gravityPhase_def well_formed_def y_fold_fall)

lemma x_gravityPhase [simp]: "x (objs (gravityPhase delta g) ! r) = x (objs g ! r)"
  by (simp add: gravityPhase_def)

subsection \<open>The reachable state, evaluated\<close>

lemma created_alive [simp]:
  "destroyed (createRandomShape rnd) = False"
  "destroyed (createIrregularShape rnd) = False"
  "destroy_calls (createRandomShape rnd) = 0"
  "destroy_calls (createIrregularShape rnd) = 0"
  by (simp_all add: createRandomShape_def createIrregularShape_def Let_def call_def
      drawPolygon_def drawStar_def new_Graphics_def)

lemma demo_game_fields:
  "shapes demo_game = [0, Suc 0]"
  "length (objs demo_game) = 2"
  "height demo_game = 600"
  "width demo_game = 800"
  "gravity demo_game = 1"
  "spawnPerSecond demo_game = 1"
  "lastSpawn demo_game = 0"
  "y (objs demo_game ! 0) = 695"
  "y (objs demo_game ! Suc 0) = 100"
  "x (objs demo_game ! 0) = 10"
  "x (objs demo_game ! Suc 0) = 20"
  "destroyed (objs demo_game ! 0) = False"
  "destroyed (objs demo_game ! Suc 0) = False"
  "destroy_calls (objs demo_game ! 0) = 0"
  "destroy_calls (objs demo_game ! Suc 0) = 0"
  by (simp_all add: demo_game_def mount_def resize_def resetGame_def setupControls_def
      updateControls_def updateStats_def Game_new_def spawnShape_def Let_def demo_rnd_def)

lemma demo_game_well_formed: "well_formed demo_game"
  by (simp add: well_formed_def demo_game_fields)

subsection \<open>The spawn step\<close>

lemma spawnPhase_fires:
  assumes "now - lastSpawn g \<ge> spawnInterval g"
  shows "spawnPhase now rnd g =
         (if spawnPerSecond g > 0
          then spawnShape (rnd 0 * width g) (- 50) False (\<lambda>i. rnd (Suc i)) (g\<lparr>lastSpawn := now\<rparr>)
          else g\<lparr>lastSpawn := now\<rparr>)"
  using assms by (simp add: spawnPhase_def Let_def)

lemma spawnPhase_waits:
  assumes "now - lastSpawn g < spawnInterval g"
  shows "spawnPhase now rnd g = g"
  using assms by (simp add: spawnPhase_def)

lemma lastSpawn_spawnShape [simp]: "lastSpawn (spawnShape px py a rnd g) = lastSpawn g"
  by (simp add: spawnShape_def Let_def)

lemma lastSpawn_update: "lastSpawn (update now delta rnd g) = lastSpawn (spawnPhase now rnd g)"
  by (simp add: update_def updateStats_def cullPhase_def gravityPhase_def split_beta)

subsection \<open>Gravity and spawn rate under each handler\<close>

lemma updateControls_fields [simp]:
  "gravity (updateControls g) = gravity g"
  "spawnPerSecond (updateControls g) = spawnPerSecond g"
  "shapes (updateControls g) = shapes g"
  "objs (updateControls g) = objs g"
  by (simp_all add: updateControls_def)

lemma config_updateStats [simp]:
  "gravity (updateStats g) = gravity g"
  "spawnPerSecond (updateStats g) = spawnPerSecond g"
  by (simp_all add: updateStats_def)

lemma config_spawnShape [simp]:
  "gravity (spawnShape px py a rnd g) = gravity g"
  "spawnPerSecond (spawnShape px py a rnd g) = spawnPerSecond g"
  by (simp_all add: spawnShape_def Let_def)

lemma config_update [simp]:
  "gravity (update now delta rnd g) = gravity g"
  "spawnPerSecond (update now delta rnd g) = spawnPerSecond g"
  by (simp_all add: update_def cullPhase_def gravityPhase_def spawnPhase_def split_beta Let_def)

lemma config_removeShape [simp]:
  "gravity (removeShape r g) = gravity g"
  "spawnPerSecond (removeShape r g) = spawnPerSecond g"
  by (simp_all add: removeShape_def Let_def)

lemma config_resize [simp]:
  "gravity (resize w h g) = gravity g"
  "spawnPerSecond (resize w h g) = spawnPerSecond g"
  by (simp_all add: resize_def resetGame_def)

lemma config_fire:
  assumes "0 \<le> gravity g" "0 \<le> spawnPerSecond g"
  shows "0 \<le> gravity (fire e g) \<and> 0 \<le> spawnPerSecond (fire e g)"
  using assms
  by (cases e)
     (simp_all add: spawn_inc_def spawn_dec_def grav_inc_def grav_dec_def
        SPAWN_STEP_def GRAVITY_STEP_def)

lemma config_fold_fire:
  assumes "0 \<le> gravity g" "0 \<le> spawnPerSecond g"
  shows "0 \<le> gravity (fold fire es g) \<and> 0 \<le> spawnPerSecond (fold fire es g)"
  using assms
proof (induction es arbitrary: g)
  case Nil
  then show ?case by simp
next
  case (Cons e es)
  from config_fire [OF Cons.prems, of e] Cons.IH [of "fire e g"]
  show ?case by simp
qed

subsection \<open>Removal and reset\<close>

lemma shapes_removeShape: "shapes (removeShape r g) = remove1 r (shapes g)"
proof (cases "r \<in> set (shapes g)")
  case True
  then have "indexOf (shapes g) r \<noteq> - 1" by (simp add: indexOf_absent)
  then show ?thesis
    by (simp add: removeShape_def Let_def splice1_indexOf [OF True])
next
  case False
  then have "indexOf (shapes g) r = - 1" by (simp add: indexOf_absent)
  with False show ?thesis
    by (simp add: removeShape_def Let_def remove1_idem)
qed

lemma objs_removeShape: "objs (removeShape r g) = destroy r (objs g)"
  by (simp add: removeShape_def Let_def)

lemma removeShape_absent:
  assumes "r \<notin> set (shapes g)"
  shows "removeShape r g = g\<lparr>objs := destroy r (objs g)\<rparr>"
proof -
  from assms have "indexOf (shapes g) r = - 1" by (simp add: indexOf_absent)
  then show ?thesis by (simp add: removeShape_def Let_def)
qed

lemma resetGame_fields:
  "shapes (resetGame g) = []"
  "lastSpawn (resetGame g) = 0"
  "objs (resetGame g) = fold destroy (shapes g) (objs g)"
  "shapesCountEl (resetGame g) = Some 0"
  "totalArea (resetGame g) = 0"
  "shapesAreaEl (resetGame g) = Some 0"
  by (simp_all add: resetGame_def updateStats_def totalArea_def Math_round_def)

subsection \<open>Every handler keeps the state well formed\<close>

lemma well_formed_removeShape: "well_formed g \<Longrightarrow> well_formed (removeShape r g)"
  by (auto simp: well_formed_def shapes_removeShape objs_removeShape)

lemma well_formed_resetGame: "well_formed (resetGame g)"
  by (simp add: well_formed_def resetGame_fields)

lemma well_formed_controls:
  "well_formed g \<Longrightarrow> well_formed (updateControls g)"
  "well_formed g \<Longrightarrow> well_formed (spawn_inc g)"
  "well_formed g \<Longrightarrow> well_formed (spawn_dec g)"
  "well_formed g \<Longrightarrow> well_formed (grav_inc g)"
  "well_formed g \<Longrightarrow> well_formed (grav_dec g)"
  by (simp_all add: well_formed_def spawn_inc_def spawn_dec_def grav_inc_def grav_dec_def)

lemma well_formed_fire: "well_formed g \<Longrightarrow> well_formed (fire e g)"
  by (cases e)
     (simp_all add: well_formed_update well_formed_spawnShape well_formed_removeShape
        well_formed_resetGame well_formed_controls resize_def)

lemma well_formed_Game_new: "well_formed (Game_new None os w h)"
  by (simp add: well_formed_def Game_new_def)

lemma well_formed_fold_fire: "well_formed g \<Longrightarrow> well_formed (fold fire es g)"
  by (induction es arbitrary: g) (simp_all add: well_formed_fire)

lemma well_formed_reachable:
  "well_formed (fold fire es (mount w h (Game_new None os w' h')))"
  by (rule well_formed_fold_fire) (simp add: mount_def resize_def well_formed_resetGame)

subsection \<open>What a handler leaves alone\<close>

lemma objs_spawnPhase_old:
  "r < length (objs g) \<Longrightarrow> objs (spawnPhase now rnd g) ! r = objs g ! r"
  by (simp add: spawnPhase_def Let_def objs_spawnShape_old)

lemma length_objs_spawnPhase: "length (objs g) \<le> length (objs (spawnPhase now rnd g))"
  by (simp add: spawnPhase_def Let_def)

lemma length_objs_cullPhase [simp]: "length (objs (cullPhase g)) = length (objs g)"
  by (simp add: objs_cullPhase)

lemma length_objs_update: "length (objs g) \<le> length (objs (update now delta rnd g))"
  by (simp add: update_def length_objs_spawnPhase)

lemma x_update:
  "r < length (objs g) \<Longrightarrow> x (objs (update now delta rnd g) ! r) = x (objs g ! r)"
  by (simp add: update_def objs_cullPhase objs_spawnPhase_old)

lemma length_objs_fire: "length (objs g) \<le> length (objs (fire e g))"
  by (cases e)
     (simp_all add: length_objs_update objs_removeShape resize_def resetGame_fields
        spawn_inc_def spawn_dec_def grav_inc_def grav_dec_def)

lemma x_fire:
  "r < length (objs g) \<Longrightarrow> x (objs (fire e g) ! r) = x (objs g ! r)"
  by (cases e)
     (simp_all add: x_update objs_spawnShape_old objs_removeShape resize_def resetGame_fields
        spawn_inc_def spawn_dec_def grav_inc_def grav_dec_def)

lemma x_fold_fire:
  "r < length (objs g) \<Longrightarrow> x (objs (fold fire es g) ! r) = x (objs g ! r)"
proof (induction es arbitrary: g)
  case Nil
  show ?case by simp
next
  case (Cons e es)
  from Cons.prems length_objs_fire [of g e] have "r < length (objs (fire e g))" by linarith
  from Cons.IH [OF this] x_fire [OF Cons.prems, of e] show ?case by simp
qed

subsection \<open>The order of the collection\<close>

lemma subseq_remove1: "subseq (remove1 v xs) xs"
  by (induction xs) auto

lemma shapes_update:
  "shapes (update now delta rnd g)
   = filter (\<lambda>r. \<not> y (objs (gravityPhase delta (spawnPhase now rnd g)) ! r) > height g + 100)
       (shapes (spawnPhase now rnd g))"
proof -
  have "height (spawnPhase now rnd g) = height g"
    by (simp add: spawnPhase_def Let_def)
  then show ?thesis by (simp add: update_def shapes_cullPhase)
qed

lemma shapes_spawnPhase:
  "shapes (spawnPhase now rnd g) = shapes g
   \<or> shapes (spawnPhase now rnd g) = shapes g @ [length (objs g)]"
  by (simp add: spawnPhase_def Let_def)

lemma subseq_shapes_spawnPhase:
  "subseq (shapes (spawnPhase now rnd g)) (shapes g @ [length (objs g)])"
  using shapes_spawnPhase [of now rnd g] by (auto intro: subseq_rev_drop_many)

lemma subseq_shapes_fire: "subseq (shapes (fire e g)) (shapes g @ [length (objs g)])"
proof (cases e)
  case (Tick now delta rnd)
  have "subseq (shapes (update now delta rnd g)) (shapes (spawnPhase now rnd g))"
    by (simp add: shapes_update)
  from subseq_order.trans [OF this subseq_shapes_spawnPhase] Tick show ?thesis by simp
next
  case (ShapeClick r)
  have "subseq (remove1 r (shapes g)) (shapes g @ [length (objs g)])"
    by (rule subseq_rev_drop_many) (rule subseq_remove1)
  with ShapeClick show ?thesis by (simp add: shapes_removeShape)
qed (simp_all add: resize_def resetGame_fields spawn_inc_def spawn_dec_def
       grav_inc_def grav_dec_def subseq_rev_drop_many)

lemma subseq_old_shapes_fire:
  "subseq (filter (\<lambda>r. r < length (objs g)) (shapes (fire e g))) (shapes g)"
proof -
  have "subseq (filter (\<lambda>r. r < length (objs g)) (shapes (fire e g)))
               (filter (\<lambda>r. r < length (objs g)) (shapes g @ [length (objs g)]))"
    by (rule subseq_filter) (rule subseq_shapes_fire)
  also have "filter (\<lambda>r. r < length (objs g)) (shapes g @ [length (objs g)])
             = filter (\<lambda>r. r < length (objs g)) (shapes g)"
    by simp
  finally show ?thesis
    using subseq_order.trans [OF _ subseq_filter_left] by blast
qed

lemma subseq_old_shapes_fold_fire:
  "subseq (filter (\<lambda>r. r < length (objs g)) (shapes (fold fire es g))) (shapes g)"
proof (induction es arbitrary: g)
  case Nil
  show ?case by simp
next
  case (Cons e es)
  let ?n = "length (objs g)" and ?m = "length (objs (fire e g))"
  let ?final = "shapes (fold fire es (fire e g))"
  have le: "?n \<le> ?m" by (rule length_objs_fire)
  have "filter (\<lambda>r. r < ?n) ?final = filter (\<lambda>r. r < ?n) (filter (\<lambda>r. r < ?m) ?final)"
    using le by (auto intro: filter_cong)
  also have "subseq \<dots> (filter (\<lambda>r. r < ?n) (shapes (fire e g)))"
    by (rule subseq_filter) (rule Cons.IH)
  finally have "subseq (filter (\<lambda>r. r < ?n) ?final) (filter (\<lambda>r. r < ?n) (shapes (fire e g)))" .
  from subseq_order.trans [OF this subseq_old_shapes_fire] show ?case by simp
qed

subsection \<open>The path of a regular polygon\<close>

lemma vertices_append [simp]: "vertices (cs @ ds) = vertices cs @ vertices ds"
  by (induction cs rule: vertices.induct) simp_all

lemma vertices_drawPolygon_vertex:
  "vertices (map (drawPolygon_vertex radius sides) ks)
   = map (\<lambda>i. (radius * cos (real i * (2 * pi / real sides)),
                 radius * sin (real i * (2 * pi / real sides)))) ks"
  by (induction ks) (simp_all add: drawPolygon_vertex_def mult.commute)

lemma vertices_drawPolygon:
  "vertices (cmds (drawPolygon (call (BeginFill c) new_Graphics) radius sides))
   = (radius, 0) # map (ring_point radius sides) [1..<Suc sides]"
  unfolding ring_point_def
  by (simp add: drawPolygon_def call_def new_Graphics_def vertices_drawPolygon_vertex)

lemma ring_point_0: "ring_point radius sides 0 = (radius, 0)"
  by (simp add: ring_point_def)

lemma ring_point_closes: "0 < sides \<Longrightarrow> ring_point radius sides sides = (radius, 0)"
  by (simp add: ring_point_def)

lemma ring_nth:
  assumes "k \<le> sides"
  shows "((radius, 0) # map (ring_point radius sides) [1..<Suc sides]) ! k
         = ring_point radius sides k"
proof (cases k)
  case 0
  then show ?thesis by (simp add: ring_point_0)
next
  case (Suc j)
  with assms have "j < sides" by simp
  then have "map (ring_point radius sides) [1..<Suc sides] ! j = ring_point radius sides (1 + j)"
    by (simp del: upt_Suc)
  with Suc show ?thesis by simp
qed

lemma ring_point_dist:
  "sqrt ((fst (ring_point radius sides k)) ^ 2 + (snd (ring_point radius sides k)) ^ 2) = \<bar>radius\<bar>"
proof -
  define a where "a = real k * (2 * pi / real sides)"
  have "(radius * cos a) ^ 2 + (radius * sin a) ^ 2 = radius ^ 2 * ((cos a) ^ 2 + (sin a) ^ 2)"
    by (simp only: power_mult_distrib distrib_left)
  also have "\<dots> = radius ^ 2" by simp
  finally have "sqrt ((radius * cos a) ^ 2 + (radius * sin a) ^ 2) = \<bar>radius\<bar>"
    by simp
  then show ?thesis by (simp add: ring_point_def a_def)
qed

lemma ring_point_inj:
  assumes "radius \<noteq> 0" "j < sides" "k < sides"
    and eq: "ring_point radius sides j = ring_point radius sides k"
  shows "j = k"
proof -
  define s where "s = 2 * pi / real sides"
  from assms(2) have pos: "0 < real sides" by simp
  then have s0: "s \<noteq> 0" by (simp add: s_def)
  from pos have tp: "2 * pi = real sides * s" by (simp add: s_def)
  from eq assms(1) have "sin (real j * s) = sin (real k * s) \<and> cos (real j * s) = cos (real k * s)"
    by (simp add: ring_point_def s_def)
  then obtain n :: int where "real j * s = real k * s + 2 * pi * real_of_int n"
    using sin_cos_eq_iff by blast
  then have "real j * s = real k * s + (real sides * s) * real_of_int n"
    by (simp only: tp)
  then have "(real j - real k - real sides * real_of_int n) * s = 0"
    by (simp add: algebra_simps)
  with s0 have "real j - real k - real sides * real_of_int n = 0" by simp
  then have "real_of_int (int j - int k - int sides * n) = 0" by simp
  then have diff: "int j - int k = int sides * n" by linarith
  from assms(2,3) have "\<bar>int j - int k\<bar> < int sides" by linarith
  with diff have "int sides * \<bar>n\<bar> < int sides * 1"
    by (simp add: abs_mult)
  then have "\<bar>n\<bar> < 1" using assms(2) by (auto simp: mult_less_cancel_left)
  then have "n = 0" by linarith
  with diff show ?thesis by simp
qed

subsection \<open>The drawing and the area of a random shape\<close>

lemma type_range:
  fixes u :: real
  assumes "0 \<le> u" "u < 1"
  shows "\<lfloor>u * 7\<rfloor> \<in> {0, 1, 2, 3, 4, 5, 6 :: int}"
proof -
  define t where "t = \<lfloor>u * 7\<rfloor>"
  from assms have "0 \<le> t" "t < 7" by (simp_all add: t_def floor_less_iff)
  then have "t \<in> {0, 1, 2, 3, 4, 5, 6}" by auto
  then show ?thesis by (simp only: t_def)
qed

lemma is_LineTo_drawPolygon_vertex:
  "list_all is_LineTo (map (drawPolygon_vertex radius sides) ks)"
  by (induction ks) (simp_all add: drawPolygon_vertex_def is_LineTo_def)

lemma is_LineTo_drawStar_vertex:
  "list_all is_LineTo (map (drawStar_vertex cx cy points radius) ks)"
  by (induction ks) (simp_all add: drawStar_vertex_def is_LineTo_def Let_def)

lemma drawn_shape_path:
  assumes "list_all is_LineTo ls"
  shows "drawn_shape (BeginFill c # MoveTo a b # ls @ [EndFill])
         = map_option (\<lambda>k. (k, a)) (kind_of_sides (length ls))"
  using assms by (simp add: drawn_shape_def)

lemma drawn_shape_drawPolygon:
  "drawn_shape (cmds (drawPolygon (call (BeginFill c) new_Graphics) sz sides) @ [EndFill])
   = map_option (\<lambda>k. (k, sz)) (kind_of_sides sides)"
  using drawn_shape_path [OF is_LineTo_drawPolygon_vertex, of c sz 0 sz sides "[1..<Suc sides]"]
  by (simp add: call_def drawPolygon_def new_Graphics_def del: upt_Suc)

lemma drawn_shape_drawStar:
  "2 \<le> points \<Longrightarrow>
   drawn_shape (cmds (drawStar 0 0 points sz (call (BeginFill c) new_Graphics)) @ [EndFill])
   = map_option (\<lambda>k. (k, sz)) (kind_of_sides (2 * points))"
  using drawn_shape_path [OF is_LineTo_drawStar_vertex, of c sz 0 0 0 points sz "[0..<2 * points]"]
  by (simp add: call_def drawStar_def new_Graphics_def)

lemma drawn_shape_primitive:
  "drawn_shape (cmds (call (DrawCircle 0 0 sz) (call (BeginFill c) new_Graphics)) @ [EndFill])
   = Some (Circle, sz)"
  "drawn_shape (cmds (call (DrawEllipse 0 0 sz h) (call (BeginFill c) new_Graphics)) @ [EndFill])
   = Some (Ellipse, sz)"
  by (simp_all add: call_def new_Graphics_def drawn_shape_def)

lemma createRandomShape_type:
  assumes "\<lfloor>rnd 2 * 7\<rfloor> = t" "t \<in> {0, 1, 2, 3, 4, 5, 6}"
  shows "drawn_shape (cmds (createRandomShape rnd))
           = Some (kinds ! nat t, MIN_SIZE + rnd 1 * (MAX_SIZE - MIN_SIZE))
       \<and> area (createRandomShape rnd)
           = Some (spec_area (kinds ! nat t) (MIN_SIZE + rnd 1 * (MAX_SIZE - MIN_SIZE)))"
  unfolding createRandomShape_def Let_def assms(1)
  using assms(2)
  by (auto simp: call_def [of EndFill] drawn_shape_drawPolygon drawn_shape_drawStar
      drawn_shape_primitive kind_of_sides_def kinds_def estimateArea_def spec_area_def)

subsection \<open>The loop of the shoelace formula\<close>

lemma length_flat [simp]: "length (flat vs) = 2 * length vs"
  by (induction vs) (simp_all add: flat_def split_beta)

lemma flat_Cons: "flat (v # vs) = fst v # snd v # flat vs"
  by (simp add: flat_def split_beta)

lemma flat_nth:
  "k < length vs \<Longrightarrow> flat vs ! (2 * k) = fst (vs ! k) \<and> flat vs ! Suc (2 * k) = snd (vs ! k)"
proof (induction vs arbitrary: k)
  case Nil
  then show ?case by simp
next
  case (Cons v vs)
  show ?case
  proof (cases k)
    case 0
    then show ?thesis by (simp add: flat_Cons)
  next
    case (Suc j)
    with Cons.prems have "j < length vs" by simp
    from Cons.IH [OF this] Suc show ?thesis by (simp add: flat_Cons)
  qed
qed

lemma js_get_flat:
  assumes "k < length vs"
  shows "js_get (flat vs) (2 * k) = Some (fst (vs ! k))"
    and "js_get (flat vs) (2 * k + 1) = Some (snd (vs ! k))"
  using assms flat_nth [OF assms] by (simp_all add: js_get_def)

lemma even_mod: "(2 * m) mod (2 * n) = 2 * (m mod n)" for m n :: nat
  by (rule mult_mod_right [symmetric])

lemma odd_mod:
  fixes m n :: nat
  shows "(2 * m + 1) mod (2 * n) = 2 * (m mod n) + 1"
  by (simp add: mod_mult2_eq)

lemma loop_step:
  assumes "k < length vs"
  shows "polygonArea_loop (flat vs) (2 * k) (Some a)
         = polygonArea_loop (flat vs) (2 * Suc k) (Some (a + cross_at vs k))"
proof -
  let ?n = "length vs"
  from assms have n: "0 < ?n" by (cases vs) simp_all
  then have nxt: "Suc k mod ?n < ?n" by simp
  have i2: "(2 * k + 2) mod (2 * ?n) = 2 * (Suc k mod ?n)"
    using even_mod [of "Suc k" ?n] by simp
  have i3: "(2 * k + 3) mod (2 * ?n) = 2 * (Suc k mod ?n) + 1"
    using odd_mod [of "Suc k" ?n] by (simp add: numeral_3_eq_3)
  have ct: "cross_term (js_get (flat vs) (2 * k)) (js_get (flat vs) (2 * k + 1))
                (js_get (flat vs) ((2 * k + 2) mod length (flat vs)))
                (js_get (flat vs) ((2 * k + 3) mod length (flat vs)))
              = Some (cross_at vs k)"
    unfolding length_flat i2 i3
    by (simp only: js_get_flat [OF assms] js_get_flat [OF nxt])
       (simp add: cross_term_def cross_at_def)
  from assms have lt: "2 * k < length (flat vs)" by simp
  show ?thesis
    by (subst polygonArea_loop.simps) (simp only: lt if_True ct js_add_def, simp)
qed

lemma loop_flat:
  assumes "k \<le> length vs"
  shows "polygonArea_loop (flat vs) (2 * k) (Some a)
         = Some (a + (\<Sum>j = k..<length vs. cross_at vs j))"
  using assms
proof (induction "length vs - k" arbitrary: k a)
  case 0
  then have "k = length vs" by simp
  then show ?case by (subst polygonArea_loop.simps) simp
next
  case (Suc d)
  then have lt: "k < length vs" and d: "d = length vs - Suc k" and le: "Suc k \<le> length vs"
    by simp_all
  from Suc.hyps(1) [OF d le, of "a + cross_at vs k"] loop_step [OF lt, of a]
  show ?case by (simp add: sum.atLeast_Suc_lessThan [OF lt])
qed

lemma polygonArea_flat: "polygonArea (flat vs) = Some (shoelace vs)"
  using loop_flat [of 0 vs 0] by (simp add: polygonArea_def shoelace_def atLeast0LessThan)

lemma cr_swap: "cr u v = - cr v u"
  by (simp add: cr_def)

lemma cross_sum_split:
  assumes "length vs = Suc m"
  shows "(\<Sum>k < Suc m. cross_at vs k) = (\<Sum>k < m. cr (vs ! k) (vs ! Suc k)) + cr (vs ! m) (vs ! 0)"
proof -
  have "(\<Sum>k < m. cross_at vs k) = (\<Sum>k < m. cr (vs ! k) (vs ! Suc k))"
    by (rule sum.cong) (simp_all add: cross_at_def cr_def assms)
  moreover have "cross_at vs m = cr (vs ! m) (vs ! 0)"
    by (simp add: cross_at_def cr_def assms)
  ultimately show ?thesis by simp
qed

lemma cross_sum_rev:
  "(\<Sum>k < length vs. cross_at (rev vs) k) = - (\<Sum>k < length vs. cross_at vs k)"
proof (cases "length vs")
  case 0
  then show ?thesis by simp
next
  case (Suc m)
  then have lr: "length (rev vs) = Suc m" by simp
  have flipped: "(\<Sum>k < m. cr (rev vs ! k) (rev vs ! Suc k))
              = (\<Sum>k < m. - cr (vs ! (m - Suc k)) (vs ! Suc (m - Suc k)))"
  proof (rule sum.cong)
    fix k assume "k \<in> {..<m}"
    then have k: "k < m" by simp
    with Suc have at: "rev vs ! k = vs ! Suc (m - Suc k)" "rev vs ! Suc k = vs ! (m - Suc k)"
      by (simp_all add: rev_nth Suc_diff_Suc)
    show "cr (rev vs ! k) (rev vs ! Suc k) = - cr (vs ! (m - Suc k)) (vs ! Suc (m - Suc k))"
      unfolding at by (rule cr_swap)
  qed simp
  have "(\<Sum>k < m. cr (vs ! (m - Suc k)) (vs ! Suc (m - Suc k)))
        = (\<Sum>k < m. cr (vs ! k) (vs ! Suc k))"
    by (rule sum.nat_diff_reindex [of "\<lambda>k. cr (vs ! k) (vs ! Suc k)" m])
  with flipped have inner: "(\<Sum>k < m. cr (rev vs ! k) (rev vs ! Suc k))
              = - (\<Sum>k < m. cr (vs ! k) (vs ! Suc k))"
    by (simp add: sum_negf)
  from Suc have ends: "rev vs ! m = vs ! 0" "rev vs ! 0 = vs ! m"
    by (simp_all add: rev_nth)
  have "cr (rev vs ! m) (rev vs ! 0) = - cr (vs ! m) (vs ! 0)"
    unfolding ends by (rule cr_swap)
  with inner show ?thesis
    unfolding Suc cross_sum_split [OF lr] cross_sum_split [OF Suc] by simp
qed

lemma shoelace_rev: "shoelace (rev vs) = shoelace vs"
  using cross_sum_rev [of vs] by (simp add: shoelace_def)

lemma concat_irregular_vertex:
  "concat (map (irregular_vertex rnd n radius) ks)
   = flat (map (\<lambda>i. (hd (irregular_vertex rnd n radius i),
                       hd (tl (irregular_vertex rnd n radius i)))) ks)"
  by (induction ks) (simp_all add: flat_def irregular_vertex_def Let_def)

lemma area_createIrregularShape:
  "\<exists>vs. area (createIrregularShape rnd) = Some (shoelace vs)"
proof -
  define n where "n = nat (5 + \<lfloor>rnd 1 * 5\<rfloor>)"
  define radius where "radius = MIN_SIZE + rnd 2 * (MAX_SIZE - MIN_SIZE)"
  have "area (createIrregularShape rnd)
        = polygonArea (concat (map (irregular_vertex rnd n radius) [0..<n]))"
    by (simp add: createIrregularShape_def Let_def n_def radius_def)
  then show ?thesis
    unfolding concat_irregular_vertex polygonArea_flat by (rule exI)
qed

lemma shoelace_example: "shoelace [(0, 0), (4, 0), (4, 3)] = 6"
proof -
  have c0: "cross_at [(0, 0), (4, 0), (4, 3)] 0 = 0"
    and c1: "cross_at [(0, 0), (4, 0), (4, 3)] 1 = 12"
    and c2: "cross_at [(0, 0), (4, 0), (4, 3)] 2 = 0"
    by (simp_all add: cross_at_def)
  have "(\<Sum>k < 3. cross_at [(0, 0), (4, 0), (4, 3)] k) = 12"
    using c0 c1 c2 by (simp add: numeral_3_eq_3 numeral_2_eq_2)
  then show ?thesis by (simp add: shoelace_def numeral_3_eq_3)
qed

section \<open>The claims\<close>

subsection \<open>C1: the precomputed area of a random shape\<close>

text \<open>
  Claim C1. Whatever \<^verbatim>\<open>Math.random()\<close> returns in \<open>[0, 1)\<close> for the type, the type is one
  of 0 to 6, the shape that \<^verbatim>\<open>_createRandomShape\<close> has drawn is of the kind the
  specification lists at that place and of the drawn size, and the \<^verbatim>\<open>_area\<close> stored with
  it is the specification's closed form for that kind and size; \<^verbatim>\<open>_estimateArea\<close> gives
  900 for a square of size 30 and \<open>pi * 400\<close> for a circle of size 20.
\<close>

theorem createRandomShape_area:
  assumes "0 \<le> rnd 2" "rnd 2 < 1"
  shows "let sz = MIN_SIZE + rnd 1 * (MAX_SIZE - MIN_SIZE);
             type = \<lfloor>rnd 2 * 7\<rfloor>;
             k = kinds ! nat type
         in 0 \<le> type \<and> type \<le> 6
          \<and> drawn_shape (cmds (createRandomShape rnd)) = Some (k, sz)
          \<and> area (createRandomShape rnd) = Some (spec_area k sz)
          \<and> area (createRandomShape rnd) = Some (estimateArea type sz)
          \<and> estimateArea 1 30 = 900 \<and> estimateArea 4 20 = pi * 400"
proof -
  define t where "t = \<lfloor>rnd 2 * 7\<rfloor>"
  from type_range [OF assms] have t: "t \<in> {0, 1, 2, 3, 4, 5, 6}" by (simp only: t_def)
  then have bounds: "0 \<le> t \<and> t \<le> 6" by auto
  have est: "area (createRandomShape rnd)
      = Some (estimateArea t (MIN_SIZE + rnd 1 * (MAX_SIZE - MIN_SIZE)))"
    by (simp add: createRandomShape_def Let_def t_def)
  have scen: "estimateArea 1 30 = 900 \<and> estimateArea 4 20 = pi * 400"
    by (simp add: estimateArea_def)
  from createRandomShape_type [of rnd t, OF t_def [symmetric] t] bounds est scen
  show ?thesis
    unfolding Let_def t_def [symmetric] by blast
qed

text \<open>The two scenarios of the specification, produced by the factory itself.\<close>

theorem createRandomShape_area_witness:
  "0 \<le> square_rnd 2 \<and> square_rnd 2 < 1
   \<and> drawn_shape (cmds (createRandomShape square_rnd)) = Some (Square, 30)
   \<and> area (createRandomShape square_rnd) = Some 900
   \<and> 0 \<le> circle_rnd 2 \<and> circle_rnd 2 < 1
   \<and> drawn_shape (cmds (createRandomShape circle_rnd)) = Some (Circle, 20)
   \<and> area (createRandomShape circle_rnd) = Some (pi * 400)"
proof -
  have sq: "0 \<le> square_rnd 2" "square_rnd 2 < 1" by (simp_all add: square_rnd_def)
  have ci: "0 \<le> circle_rnd 2" "circle_rnd 2 < 1" by (simp_all add: circle_rnd_def)
  have v: "square_rnd 1 = 1 / 3" "\<lfloor>square_rnd 2 * 7\<rfloor> = 1"
    "circle_rnd 1 = 0" "\<lfloor>circle_rnd 2 * 7\<rfloor> = 4"
    by (simp_all add: square_rnd_def circle_rnd_def)
  from createRandomShape_area [of square_rnd, OF sq] createRandomShape_area [of circle_rnd, OF ci]
  show ?thesis
    unfolding Let_def v
    by (simp add: sq ci kinds_def spec_area_def MIN_SIZE_def MAX_SIZE_def)
qed

subsection \<open>C2: the end-of-tick cull\<close>

text \<open>
  Claim C2. In a well-formed state, after \<^verbatim>\<open>_update\<close> every shape still in the collection
  has \<open>y \<le> height + 100\<close>; every shape whose \<open>y\<close> exceeds \<open>height + 100\<close> after the
  gravity step is destroyed and no longer in the collection when the tick ends, and every
  other shape of that moment is still there.
\<close>

theorem update_culls:
  assumes "well_formed g"
  shows "let g1 = gravityPhase delta (spawnPhase now rnd g);
             g' = update now delta rnd g
         in (\<forall>r \<in> set (shapes g'). y (objs g' ! r) \<le> height g' + 100)
          \<and> (\<forall>r \<in> set (shapes g1). y (objs g1 ! r) > height g1 + 100 \<longrightarrow>
                r \<notin> set (shapes g') \<and> destroyed (objs g' ! r))
          \<and> (\<forall>r \<in> set (shapes g1). y (objs g1 ! r) \<le> height g1 + 100 \<longrightarrow>
                r \<in> set (shapes g'))"
proof -
  define g1 where "g1 = gravityPhase delta (spawnPhase now rnd g)"
  have wellf1: "well_formed g1"
    unfolding g1_def using assms by (simp add: well_formed_gravityPhase well_formed_spawnPhase)
  have upd: "update now delta rnd g = updateStats (cullPhase g1)"
    by (simp add: update_def g1_def)
  have kept: "\<forall>r \<in> set (shapes (cullPhase g1)). y (objs (cullPhase g1) ! r) \<le> height g1 + 100"
    by (auto simp: shapes_cullPhase objs_cullPhase)
  have gone: "r \<notin> set (shapes (cullPhase g1)) \<and> destroyed (objs (cullPhase g1) ! r)"
    if "r \<in> set (shapes g1)" "y (objs g1 ! r) > height g1 + 100" for r
  proof -
    from wellf1 that(1) have "r < length (objs g1)" by (simp add: well_formed_def)
    with that show ?thesis
      by (simp add: shapes_cullPhase objs_cullPhase destroyed_fold_destroy)
  qed
  have stay: "r \<in> set (shapes (cullPhase g1))"
    if "r \<in> set (shapes g1)" "y (objs g1 ! r) \<le> height g1 + 100" for r
    using that by (simp add: shapes_cullPhase)
  show ?thesis
    unfolding Let_def upd g1_def [symmetric]
    using kept gone stay by simp
qed

text \<open>
  The reachable state through a tick with \<open>delta = 10\<close>: the first shape passes the limit
  and is culled, the second stays.
\<close>

theorem update_culls_witness:
  "well_formed demo_game
   \<and> shapes (gravityPhase 10 (spawnPhase 0 demo_rnd demo_game)) = [0, Suc 0]
   \<and> y (objs (gravityPhase 10 (spawnPhase 0 demo_rnd demo_game)) ! 0) > height demo_game + 100
   \<and> shapes (update 0 10 demo_rnd demo_game) = [Suc 0]
   \<and> y (objs (update 0 10 demo_rnd demo_game) ! Suc 0) \<le> height demo_game + 100
   \<and> destroyed (objs (update 0 10 demo_rnd demo_game) ! 0)"
proof -
  have g1: "spawnPhase 0 demo_rnd demo_game = demo_game"
    by (simp add: spawnPhase_def spawnInterval_def demo_game_fields)
  have s1: "shapes (gravityPhase 10 demo_game) = [0, Suc 0]"
    by (simp add: demo_game_fields)
  have y0: "y (objs (gravityPhase 10 demo_game) ! 0) = 705"
    by (simp add: y_gravityPhase [OF demo_game_well_formed] demo_game_fields)
  have y1: "y (objs (gravityPhase 10 demo_game) ! Suc 0) = 110"
    by (simp add: y_gravityPhase [OF demo_game_well_formed] demo_game_fields)
  have h1: "height (gravityPhase 10 demo_game) = 600"
    by (simp add: demo_game_fields)
  have h2: "height (update 0 10 demo_rnd demo_game) = 600"
    by (simp add: update_def g1 demo_game_fields)
  have sh: "shapes (update 0 10 demo_rnd demo_game) = [Suc 0]"
    by (simp add: update_def g1 shapes_cullPhase y0 y1 demo_game_fields)
  from update_culls [OF demo_game_well_formed, of 10 0 demo_rnd]
  show ?thesis
    unfolding Let_def g1
    by (simp add: demo_game_well_formed s1 y0 y1 h1 h2 sh demo_game_fields)
qed

subsection \<open>C3: the spawn timer\<close>

text \<open>
  Claim C3 gives the interval as \<open>1000 / max(spawnPerSecond, 1)\<close> for every
  \<open>spawnPerSecond \<ge> 0\<close>. The code divides by \<^verbatim>\<open>this.spawnPerSecond || 1\<close>, which replaces
  only 0. At \<open>spawnPerSecond = 1/2\<close>, a value the constructor accepts, the code's interval
  is 2000 and the claimed one is 1000.
\<close>

theorem spawn_interval_counterexample:
  "0 \<le> spawnPerSecond (Game_new None \<lparr>opt_gravity = None, opt_spawnPerSecond = Some (1 / 2)\<rparr> 800 600)
   \<and> spawnInterval (Game_new None \<lparr>opt_gravity = None, opt_spawnPerSecond = Some (1 / 2)\<rparr> 800 600) = 2000
   \<and> 1000 / max (spawnPerSecond (Game_new None \<lparr>opt_gravity = None, opt_spawnPerSecond = Some (1 / 2)\<rparr> 800 600)) 1 = 1000
   \<and> spawnInterval (Game_new None \<lparr>opt_gravity = None, opt_spawnPerSecond = Some (1 / 2)\<rparr> 800 600)
       \<noteq> 1000 / max (spawnPerSecond (Game_new None \<lparr>opt_gravity = None, opt_spawnPerSecond = Some (1 / 2)\<rparr> 800 600)) 1"
  by (simp add: Game_new_def spawnInterval_def)

text \<open>
  Claim C3, amended. The interval is 1000 when \<open>spawnPerSecond\<close> is 0 and
  \<open>1000 / spawnPerSecond\<close> otherwise; it equals \<open>1000 / max(spawnPerSecond, 1)\<close> when
  \<open>spawnPerSecond\<close> is 0 or at least 1. When the time since the last spawn has reached
  the interval, the spawn clock is set to \<open>now\<close>, and a shape is appended (at
  \<open>x = rnd 0 * width\<close>, \<open>y = - 50\<close>) if \<open>spawnPerSecond > 0\<close>, and nothing else changes
  if not; before that, the spawn step changes nothing. The rest of the tick leaves the
  spawn clock as the spawn step set it.
\<close>

theorem spawn_step:
  "spawnInterval g = (if spawnPerSecond g = 0 then 1000 else 1000 / spawnPerSecond g)
   \<and> (spawnPerSecond g = 0 \<or> 1 \<le> spawnPerSecond g \<longrightarrow>
        spawnInterval g = 1000 / max (spawnPerSecond g) 1)
   \<and> (now - lastSpawn g \<ge> spawnInterval g \<longrightarrow>
        lastSpawn (spawnPhase now rnd g) = now
        \<and> (spawnPerSecond g > 0 \<longrightarrow>
             shapes (spawnPhase now rnd g) = shapes g @ [length (objs g)]
             \<and> length (objs (spawnPhase now rnd g)) = Suc (length (objs g))
             \<and> x (objs (spawnPhase now rnd g) ! length (objs g)) = rnd 0 * width g
             \<and> y (objs (spawnPhase now rnd g) ! length (objs g)) = - 50)
        \<and> (\<not> spawnPerSecond g > 0 \<longrightarrow>
             shapes (spawnPhase now rnd g) = shapes g \<and> objs (spawnPhase now rnd g) = objs g))
   \<and> (now - lastSpawn g < spawnInterval g \<longrightarrow> spawnPhase now rnd g = g)
   \<and> lastSpawn (update now delta rnd g) = lastSpawn (spawnPhase now rnd g)"
proof -
  have a: "spawnInterval g = (if spawnPerSecond g = 0 then 1000 else 1000 / spawnPerSecond g)"
    by (simp add: spawnInterval_def)
  have b: "spawnInterval g = 1000 / max (spawnPerSecond g) 1"
    if "spawnPerSecond g = 0 \<or> 1 \<le> spawnPerSecond g"
    using that by (auto simp: spawnInterval_def max_def)
  have c: "lastSpawn (spawnPhase now rnd g) = now"
    if "now - lastSpawn g \<ge> spawnInterval g"
    by (simp add: spawnPhase_fires [OF that])
  have d: "shapes (spawnPhase now rnd g) = shapes g @ [length (objs g)]
           \<and> length (objs (spawnPhase now rnd g)) = Suc (length (objs g))
           \<and> x (objs (spawnPhase now rnd g) ! length (objs g)) = rnd 0 * width g
           \<and> y (objs (spawnPhase now rnd g) ! length (objs g)) = - 50"
    if "now - lastSpawn g \<ge> spawnInterval g" "spawnPerSecond g > 0"
    using that(2) by (simp add: spawnPhase_fires [OF that(1)] spawnShape_def Let_def)
  have e: "shapes (spawnPhase now rnd g) = shapes g \<and> objs (spawnPhase now rnd g) = objs g"
    if "now - lastSpawn g \<ge> spawnInterval g" "\<not> spawnPerSecond g > 0"
    using that(2) by (simp add: spawnPhase_fires [OF that(1)])
  have f: "spawnPhase now rnd g = g" if "now - lastSpawn g < spawnInterval g"
    by (rule spawnPhase_waits [OF that])
  note g = lastSpawn_update [of now delta rnd g]
  from a b c d e f g show ?thesis by blast
qed

text \<open>
  The three cases at the reachable state: a spawn at \<open>now = 1000\<close>; a clock reset with no
  spawn once the rate has been lowered to 0; no change at \<open>now = 999\<close>.
\<close>

theorem spawn_step_witness:
  "spawnInterval demo_game = 1000 / max (spawnPerSecond demo_game) 1
   \<and> 1000 - lastSpawn demo_game \<ge> spawnInterval demo_game
   \<and> lastSpawn (spawnPhase 1000 demo_rnd demo_game) = 1000
   \<and> shapes (spawnPhase 1000 demo_rnd demo_game) = [0, Suc 0, 2]
   \<and> y (objs (spawnPhase 1000 demo_rnd demo_game) ! 2) = - 50
   \<and> spawnPerSecond (spawn_dec demo_game) = 0
   \<and> spawnInterval (spawn_dec demo_game) = 1000
   \<and> lastSpawn (spawnPhase 1000 demo_rnd (spawn_dec demo_game)) = 1000
   \<and> shapes (spawnPhase 1000 demo_rnd (spawn_dec demo_game)) = [0, Suc 0]
   \<and> 999 - lastSpawn demo_game < spawnInterval demo_game
   \<and> spawnPhase 999 demo_rnd demo_game = demo_game"
proof -
  have dec: "spawnPerSecond (spawn_dec demo_game) = 0"
    "lastSpawn (spawn_dec demo_game) = 0"
    "shapes (spawn_dec demo_game) = [0, Suc 0]"
    by (simp_all add: spawn_dec_def updateControls_def SPAWN_STEP_def demo_game_fields)
  from spawn_step [of demo_game 1000 demo_rnd]
       spawn_step [of "spawn_dec demo_game" 1000 demo_rnd]
       spawn_step [of demo_game 999 demo_rnd]
  show ?thesis
    by (simp add: demo_game_fields dec)
qed

subsection \<open>C4: the shoelace area\<close>

text \<open>
  Claim C4. For every list of vertices, \<^verbatim>\<open>_polygonArea\<close> on its flat array returns a
  number, the absolute value of half the sum of the cross terms over consecutive vertex
  pairs with wraparound; it is not negative, and the reversed list of vertices gives the
  same area. The area stored with an irregular shape is such a number.
\<close>

theorem polygonArea_shoelace:
  "polygonArea (flat vs) = Some \<bar>(\<Sum>k < length vs. cross_at vs k) / 2\<bar>
   \<and> polygonArea (flat vs) = Some (shoelace vs)
   \<and> 0 \<le> shoelace vs
   \<and> polygonArea (flat (rev vs)) = polygonArea (flat vs)
   \<and> (\<exists>a. area (createIrregularShape rnd) = Some a \<and> 0 \<le> a)"
proof -
  have nonneg: "0 \<le> shoelace ws" for ws by (simp add: shoelace_def)
  from area_createIrregularShape [of rnd] obtain ws
    where "area (createIrregularShape rnd) = Some (shoelace ws)" ..
  with nonneg [of ws] have "\<exists>a. area (createIrregularShape rnd) = Some a \<and> 0 \<le> a"
    by blast
  moreover have "polygonArea (flat vs) = Some \<bar>(\<Sum>k < length vs. cross_at vs k) / 2\<bar>"
    by (simp add: polygonArea_flat shoelace_def)
  ultimately show ?thesis
    using nonneg [of vs] by (simp add: polygonArea_flat shoelace_rev)
qed

text \<open>The right triangle with legs 4 and 3, in both winding orders.\<close>

theorem polygonArea_shoelace_witness:
  "polygonArea [0, 0, 4, 0, 4, 3] = Some 6 \<and> polygonArea [4, 3, 4, 0, 0, 0] = Some 6"
proof -
  have f: "flat [(0, 0), (4, 0), (4, 3)] = [0, 0, 4, 0, 4, 3]"
    "flat (rev [(0, 0), (4, 0), (4, 3)]) = [4, 3, 4, 0, 0, 0]"
    by (simp_all add: flat_def)
  note th = polygonArea_shoelace [of "[(0, 0), (4, 0), (4, 3)]" "\<lambda>i. 0", unfolded f shoelace_example]
  from th have a: "polygonArea [0, 0, 4, 0, 4, 3] = Some 6" by (elim conjE)
  from th have b: "polygonArea [4, 3, 4, 0, 0, 0] = polygonArea [0, 0, 4, 0, 4, 3]" by (elim conjE)
  from a b show ?thesis by (simp only: simp_thms)
qed

subsection \<open>C5: the vertex ring of a regular polygon\<close>

text \<open>
  Claim C5. For a positive size and any positive number of sides (3, 4, 5 and 6 are the
  ones used), the path \<^verbatim>\<open>_drawPolygon\<close> draws on a fresh shape starts at \<open>(size, 0)\<close>,
  has its \<open>k\<close>-th point at angle \<open>k * (2 pi / sides)\<close> and at distance \<open>size\<close> from the
  centre, and comes back to its first point with the last \<^verbatim>\<open>lineTo\<close>; the ring, the path
  without that closing point, has exactly \<open>sides\<close> points, all different.
\<close>

theorem drawPolygon_ring:
  assumes "0 < radius" "0 < sides"
  shows "let vs = vertices (cmds (drawPolygon (call (BeginFill c) new_Graphics) radius sides))
         in length vs = Suc sides
          \<and> vs ! 0 = (radius, 0)
          \<and> vs ! sides = vs ! 0
          \<and> length (take sides vs) = sides
          \<and> distinct (take sides vs)
          \<and> (\<forall>k \<le> sides.
                vs ! k = (radius * cos (real k * (2 * pi / real sides)),
                          radius * sin (real k * (2 * pi / real sides)))
              \<and> sqrt ((fst (vs ! k)) ^ 2 + (snd (vs ! k)) ^ 2) = radius)"
proof -
  define vs where "vs = (radius, 0) # map (ring_point radius sides) [1..<Suc sides]"
  have len: "length vs = Suc sides" by (simp add: vs_def)
  have nth: "vs ! k = ring_point radius sides k" if "k \<le> sides" for k
    unfolding vs_def by (rule ring_nth [OF that])
  have first: "vs ! 0 = (radius, 0)" by (simp add: vs_def)
  have last: "vs ! sides = vs ! 0"
    using nth [of sides] ring_point_closes [OF assms(2), of radius] first by simp
  have dist: "distinct (take sides vs)"
  proof (rule iffD2 [OF distinct_conv_nth], intro allI impI)
    fix i j
    assume i: "i < length (take sides vs)" and j: "j < length (take sides vs)" and ne: "i \<noteq> j"
    from i j len have ij: "i < sides" "j < sides" by simp_all
    then have pts: "take sides vs ! i = ring_point radius sides i"
      "take sides vs ! j = ring_point radius sides j"
      using nth by simp_all
    from assms(1) have nz: "radius \<noteq> 0" by simp
    show "take sides vs ! i \<noteq> take sides vs ! j"
    proof
      assume "take sides vs ! i = take sides vs ! j"
      with pts have "ring_point radius sides i = ring_point radius sides j" by simp
      from ring_point_inj [OF nz ij this] ne show False by simp
    qed
  qed
  have pts: "vs ! k = (radius * cos (real k * (2 * pi / real sides)),
                        radius * sin (real k * (2 * pi / real sides)))
              \<and> sqrt ((fst (vs ! k)) ^ 2 + (snd (vs ! k)) ^ 2) = radius" if "k \<le> sides" for k
    using assms(1) ring_point_dist [of radius sides k]
    by (simp add: nth [OF that]) (simp add: ring_point_def)
  from len have lt: "length (take sides vs) = sides" by simp
  show ?thesis
    unfolding Let_def vertices_drawPolygon vs_def [symmetric]
    using len first last lt dist pts by blast
qed

text \<open>A square of size 20: five path points, vertex 0 at \<open>(20, 0)\<close>, vertex 2 at \<open>(- 20, 0)\<close>.\<close>

theorem drawPolygon_ring_witness:
  "(0::real) < 20 \<and> (0::nat) < 4 \<and> (2::nat) \<le> 4
   \<and> length (vertices (cmds (drawPolygon (call (BeginFill 0) new_Graphics) 20 4))) = 5
   \<and> vertices (cmds (drawPolygon (call (BeginFill 0) new_Graphics) 20 4)) ! 0 = (20, 0)
   \<and> vertices (cmds (drawPolygon (call (BeginFill 0) new_Graphics) 20 4)) ! 4 = (20, 0)
   \<and> vertices (cmds (drawPolygon (call (BeginFill 0) new_Graphics) 20 4)) ! 2 = (- 20, 0)
   \<and> sqrt ((fst (vertices (cmds (drawPolygon (call (BeginFill 0) new_Graphics) 20 4)) ! 2)) ^ 2
           + (snd (vertices (cmds (drawPolygon (call (BeginFill 0) new_Graphics) 20 4)) ! 2)) ^ 2) = 20"
proof -
  have h: "(0::real) < 20" "(0::nat) < 4" by simp_all
  define vs where "vs = vertices (cmds (drawPolygon (call (BeginFill 0) new_Graphics) 20 4))"
  note ring = drawPolygon_ring [OF h, of 0, unfolded Let_def, folded vs_def]
  from ring have len: "length vs = Suc 4" by (rule conjunct1)
  from ring have first: "vs ! 0 = (20, 0)" by (elim conjE)
  from ring have last: "vs ! 4 = vs ! 0" by (elim conjE)
  from ring have pts: "\<forall>k \<le> 4. vs ! k = (20 * cos (real k * (2 * pi / real 4)),
                                   20 * sin (real k * (2 * pi / real 4)))
                \<and> sqrt ((fst (vs ! k)) ^ 2 + (snd (vs ! k)) ^ 2) = 20"
    by (elim conjE)
  have two: "vs ! 2 = (20 * cos (real 2 * (2 * pi / real 4)),
                                   20 * sin (real 2 * (2 * pi / real 4)))
                \<and> sqrt ((fst (vs ! 2)) ^ 2 + (snd (vs ! 2)) ^ 2) = 20"
    by (rule pts [rule_format]) simp
  then have "vs ! 2 = (- 20, 0)" by simp
  with len first last two show ?thesis
    unfolding vs_def [symmetric] by simp
qed

subsection \<open>C6: gravity and spawn rate stay non-negative\<close>

text \<open>
  Claim C6 speaks of a \<open>setGravity(v)\<close> that clamps at 0. The program has no such
  operation; the only place where it stores a gravity it is given is the constructor,
  which stores \<^verbatim>\<open>opts.gravity ?? 1\<close> as it comes. Given \<open>- 5\<close> the stored gravity is
  \<open>- 5\<close>, and it is still negative after an increase.
\<close>

theorem setGravity_counterexample:
  "gravity (Game_new None \<lparr>opt_gravity = Some (- 5), opt_spawnPerSecond = None\<rparr> 800 600) = - 5
   \<and> gravity (Game_new None \<lparr>opt_gravity = Some (- 5), opt_spawnPerSecond = None\<rparr> 800 600) < 0
   \<and> gravity (grav_inc (Game_new None \<lparr>opt_gravity = Some (- 5), opt_spawnPerSecond = None\<rparr> 800 600)) < 0"
  by (simp add: Game_new_def grav_inc_def GRAVITY_STEP_def)

text \<open>
  Claim C6, amended. A decrease stores \<open>max 0 (v - 1)\<close>, which is never negative; an
  increase stores \<open>v + 1\<close>; the constructor's defaults are 1 and 1; and from a state
  where gravity and spawn rate are non-negative, no sequence of handler calls makes either
  negative.
\<close>

theorem controls_clamp:
  "gravity (grav_dec g) = max 0 (gravity g - 1) \<and> 0 \<le> gravity (grav_dec g)
   \<and> spawnPerSecond (spawn_dec g) = max 0 (spawnPerSecond g - 1)
   \<and> 0 \<le> spawnPerSecond (spawn_dec g)
   \<and> gravity (grav_inc g) = gravity g + 1
   \<and> spawnPerSecond (spawn_inc g) = spawnPerSecond g + 1
   \<and> gravity (Game_new None \<lparr>opt_gravity = None, opt_spawnPerSecond = None\<rparr> w h) = 1
   \<and> spawnPerSecond (Game_new None \<lparr>opt_gravity = None, opt_spawnPerSecond = None\<rparr> w h) = 1
   \<and> (0 \<le> gravity g \<and> 0 \<le> spawnPerSecond g \<longrightarrow>
        0 \<le> gravity (fold fire es g) \<and> 0 \<le> spawnPerSecond (fold fire es g))"
  using config_fold_fire [of g es]
  by (simp add: spawn_inc_def spawn_dec_def grav_inc_def grav_dec_def
      SPAWN_STEP_def GRAVITY_STEP_def Game_new_def)

text \<open>
  At the reachable state: two decreases of gravity stop at 0, three increases then give 3.
\<close>

theorem controls_clamp_witness:
  "0 \<le> gravity demo_game \<and> 0 \<le> spawnPerSecond demo_game
   \<and> gravity (grav_dec demo_game) = 0
   \<and> gravity (grav_dec (grav_dec demo_game)) = 0
   \<and> gravity (grav_inc (grav_inc (grav_inc (grav_dec (grav_dec demo_game))))) = 3
   \<and> 0 \<le> gravity (fold fire [GravDec, GravDec, SpawnDec, SpawnDec, GravInc] demo_game)
   \<and> 0 \<le> spawnPerSecond (fold fire [GravDec, GravDec, SpawnDec, SpawnDec, GravInc] demo_game)"
  using controls_clamp [of demo_game _ _ "[GravDec, GravDec, SpawnDec, SpawnDec, GravInc]"]
        controls_clamp [of "grav_dec demo_game"]
        controls_clamp [of "grav_dec (grav_dec demo_game)"]
        controls_clamp [of "grav_inc (grav_dec (grav_dec demo_game))"]
        controls_clamp [of "grav_inc (grav_inc (grav_dec (grav_dec demo_game)))"]
  by (simp add: demo_game_fields)

subsection \<open>C7: removing a shape\<close>

text \<open>
  Claim C7 calls \<^verbatim>\<open>_removeShape\<close> on a shape already removed a silent no-op that leaves
  the state unchanged. In the code only the \<^verbatim>\<open>splice\<close> is under the guard
  \<^verbatim>\<open>idx !== -1\<close>; \<^verbatim>\<open>shape.destroy()\<close> comes after it, unguarded. Removing the first shape
  of the reachable state a second time finds it absent from the collection and already
  destroyed, and calls \<^verbatim>\<open>destroy()\<close> on it once more: the object has then received two
  calls, and the state is not the state after the first removal.
\<close>

theorem removeShape_twice_counterexample:
  "0 \<notin> set (shapes (removeShape 0 demo_game))
   \<and> destroyed (objs (removeShape 0 demo_game) ! 0)
   \<and> destroy_calls (objs (removeShape 0 demo_game) ! 0) = 1
   \<and> destroy_calls (objs (removeShape 0 (removeShape 0 demo_game)) ! 0) = 2
   \<and> removeShape 0 (removeShape 0 demo_game) \<noteq> removeShape 0 demo_game"
proof -
  have once: "destroy_calls (objs (removeShape 0 demo_game) ! 0) = 1"
    by (simp add: objs_removeShape destroy_calls_destroy demo_game_fields)
  have twice: "destroy_calls (objs (removeShape 0 (removeShape 0 demo_game)) ! 0) = 2"
    by (simp add: objs_removeShape destroy_calls_destroy demo_game_fields)
  have "removeShape 0 (removeShape 0 demo_game) \<noteq> removeShape 0 demo_game"
  proof
    assume "removeShape 0 (removeShape 0 demo_game) = removeShape 0 demo_game"
    then have "destroy_calls (objs (removeShape 0 (removeShape 0 demo_game)) ! 0)
               = destroy_calls (objs (removeShape 0 demo_game) ! 0)"
      by simp
    with once twice show False by simp
  qed
  moreover have "0 \<notin> set (shapes (removeShape 0 demo_game))"
    by (simp add: shapes_removeShape demo_game_fields)
  moreover have "destroyed (objs (removeShape 0 demo_game) ! 0)"
    by (simp add: objs_removeShape destroyed_destroy demo_game_fields)
  ultimately show ?thesis using once twice by simp
qed

text \<open>
  Claim C7, amended. In a well-formed state, \<^verbatim>\<open>_removeShape\<close> of a shape in the collection
  deletes that shape and nothing else (the collection is one shorter and no longer holds
  it, and the next \<^verbatim>\<open>_updateStats\<close> shows a count one less) and destroys it. The removal
  from the collection is idempotent: of a shape not in the collection, the collection and
  every other field of the game stay as they were, and a second removal leaves the
  collection as the first left it. The call of \<^verbatim>\<open>destroy()\<close> is not under the guard: every
  \<^verbatim>\<open>_removeShape\<close> makes one more call on the shape, also on a shape already removed.
\<close>

theorem removeShape_collection:
  assumes "well_formed g"
  shows "(shape \<in> set (shapes g) \<longrightarrow>
            shapes (removeShape shape g) = remove1 shape (shapes g)
          \<and> set (shapes (removeShape shape g)) = set (shapes g) - {shape}
          \<and> Suc (length (shapes (removeShape shape g))) = length (shapes g)
          \<and> shapesCountEl (updateStats (removeShape shape g)) = Some (length (shapes g) - 1)
          \<and> destroyed (objs (removeShape shape g) ! shape))
       \<and> (shape \<notin> set (shapes g) \<longrightarrow>
            removeShape shape g = g\<lparr>objs := destroy shape (objs g)\<rparr>
          \<and> shapes (removeShape shape g) = shapes g)
       \<and> shape \<notin> set (shapes (removeShape shape g))
       \<and> shapes (removeShape shape (removeShape shape g)) = shapes (removeShape shape g)
       \<and> removeShape shape (removeShape shape g)
           = (removeShape shape g)\<lparr>objs := destroy shape (objs (removeShape shape g))\<rparr>
       \<and> (shape < length (objs g) \<longrightarrow>
            destroy_calls (objs (removeShape shape g) ! shape)
            = Suc (destroy_calls (objs g ! shape)))"
proof -
  from assms have dist: "distinct (shapes g)" by (simp add: well_formed_def)
  have present: "shapes (removeShape shape g) = remove1 shape (shapes g)
          \<and> set (shapes (removeShape shape g)) = set (shapes g) - {shape}
          \<and> Suc (length (shapes (removeShape shape g))) = length (shapes g)
          \<and> shapesCountEl (updateStats (removeShape shape g)) = Some (length (shapes g) - 1)
          \<and> destroyed (objs (removeShape shape g) ! shape)"
    if mem: "shape \<in> set (shapes g)"
  proof -
    from assms mem have "shape < length (objs g)" by (simp add: well_formed_def)
    then have "destroyed (objs (removeShape shape g) ! shape)"
      by (simp add: objs_removeShape destroyed_destroy)
    moreover from mem have "0 < length (shapes g)" by (cases "shapes g") simp_all
    ultimately show ?thesis
      using dist mem by (simp add: shapes_removeShape length_remove1 updateStats_def)
  qed
  have absent: "removeShape shape g = g\<lparr>objs := destroy shape (objs g)\<rparr>
          \<and> shapes (removeShape shape g) = shapes g"
    if "shape \<notin> set (shapes g)"
    using that by (simp add: removeShape_absent)
  have notin: "shape \<notin> set (shapes (removeShape shape g))"
    using dist by (simp add: shapes_removeShape)
  have again: "removeShape shape (removeShape shape g)
           = (removeShape shape g)\<lparr>objs := destroy shape (objs (removeShape shape g))\<rparr>"
    by (rule removeShape_absent [OF notin])
  then have same: "shapes (removeShape shape (removeShape shape g)) = shapes (removeShape shape g)"
    by simp
  have calls: "destroy_calls (objs (removeShape shape g) ! shape)
            = Suc (destroy_calls (objs g ! shape))"
    if "shape < length (objs g)"
    using that by (simp add: objs_removeShape destroy_calls_destroy)
  from present absent notin same again calls show ?thesis by blast
qed

text \<open>
  At the reachable state, for its first shape: removed once, then once more.
\<close>

theorem removeShape_collection_witness:
  "well_formed demo_game \<and> 0 \<in> set (shapes demo_game) \<and> 0 < length (objs demo_game)
   \<and> shapes (removeShape 0 demo_game) = [Suc 0]
   \<and> Suc (length (shapes (removeShape 0 demo_game))) = length (shapes demo_game)
   \<and> destroyed (objs (removeShape 0 demo_game) ! 0)
   \<and> destroy_calls (objs (removeShape 0 demo_game) ! 0) = 1
   \<and> well_formed (removeShape 0 demo_game)
   \<and> 0 \<notin> set (shapes (removeShape 0 demo_game))
   \<and> shapes (removeShape 0 (removeShape 0 demo_game)) = [Suc 0]"
  using removeShape_collection [OF demo_game_well_formed, of 0]
        removeShape_collection [OF well_formed_removeShape [OF demo_game_well_formed], of 0 0]
  by (simp add: demo_game_well_formed well_formed_removeShape demo_game_fields)

subsection \<open>C8: reset\<close>

text \<open>
  Claim C8. \<^verbatim>\<open>_resetGame\<close> from any well-formed state destroys every shape of the
  collection, empties the collection, puts the spawn clock back to 0, the value the
  constructor gives it, and the recomputed statistics are a count of 0 and a total area
  of 0; \<^verbatim>\<open>_resize\<close> is the same after storing the new window size.
\<close>

theorem resetGame_clears:
  assumes "well_formed g"
  shows "shapes (resetGame g) = []
       \<and> (\<forall>r \<in> set (shapes g). destroyed (objs (resetGame g) ! r))
       \<and> lastSpawn (resetGame g) = 0
       \<and> lastSpawn (resetGame g) = lastSpawn (Game_new None os w h)
       \<and> length (shapes (resetGame g)) = 0
       \<and> totalArea (resetGame g) = 0
       \<and> shapesCountEl (resetGame g) = Some 0
       \<and> shapesAreaEl (resetGame g) = Some 0
       \<and> resize w h g = resetGame (g\<lparr>width := w, height := h\<rparr>)
       \<and> shapes (resize w h g) = []
       \<and> totalArea (resize w h g) = 0"
proof -
  have "destroyed (objs (resetGame g) ! r)" if "r \<in> set (shapes g)" for r
  proof -
    from assms that have "r < length (objs g)" by (simp add: well_formed_def)
    with that show ?thesis by (simp add: resetGame_fields destroyed_fold_destroy)
  qed
  then show ?thesis
    by (simp add: resetGame_fields resize_def Game_new_def)
qed

text \<open>The reachable state, with its two shapes, reset.\<close>

theorem resetGame_clears_witness:
  "well_formed demo_game \<and> shapes demo_game = [0, Suc 0]
   \<and> shapes (resetGame demo_game) = []
   \<and> destroyed (objs (resetGame demo_game) ! 0)
   \<and> destroyed (objs (resetGame demo_game) ! Suc 0)
   \<and> lastSpawn (resetGame demo_game) = 0
   \<and> totalArea (resetGame demo_game) = 0
   \<and> shapesCountEl (resetGame demo_game) = Some 0
   \<and> shapesAreaEl (resetGame demo_game) = Some 0"
  using resetGame_clears [OF demo_game_well_formed]
  by (simp add: demo_game_well_formed demo_game_fields)

subsection \<open>C9: the motion step\<close>

text \<open>
  Claim C9. In a well-formed state, the motion step adds exactly \<open>gravity * delta\<close> to the
  \<open>y\<close> of every shape of the collection and leaves its \<open>x\<close> alone; so does the whole
  tick, for every shape that was in the collection after the spawn step; and no sequence
  of handler calls changes the \<open>x\<close> of an object that exists.
\<close>

theorem gravity_step:
  assumes "well_formed g"
  shows "(\<forall>r \<in> set (shapes g).
            y (objs (gravityPhase delta g) ! r) = y (objs g ! r) + gravity g * delta
          \<and> x (objs (gravityPhase delta g) ! r) = x (objs g ! r))
       \<and> (\<forall>r \<in> set (shapes (spawnPhase now rnd g)).
            y (objs (update now delta rnd g) ! r)
              = y (objs (spawnPhase now rnd g) ! r) + gravity g * delta
          \<and> x (objs (update now delta rnd g) ! r) = x (objs (spawnPhase now rnd g) ! r))
       \<and> (\<forall>r < length (objs g). x (objs (fold fire es g) ! r) = x (objs g ! r))"
proof -
  have step: "y (objs (gravityPhase delta h) ! r) = y (objs h ! r) + gravity h * delta"
    if "well_formed h" "r \<in> set (shapes h)" for h r
  proof -
    from that have "r < length (objs h)" by (simp add: well_formed_def)
    with that show ?thesis by (simp add: y_gravityPhase)
  qed
  have grav: "gravity (spawnPhase now rnd g) = gravity g"
    by (simp add: spawnPhase_def Let_def)
  have tick: "y (objs (update now delta rnd g) ! r)
              = y (objs (spawnPhase now rnd g) ! r) + gravity g * delta
          \<and> x (objs (update now delta rnd g) ! r) = x (objs (spawnPhase now rnd g) ! r)"
    if "r \<in> set (shapes (spawnPhase now rnd g))" for r
    using step [OF well_formed_spawnPhase [OF assms] that]
    by (simp add: update_def objs_cullPhase grav)
  from step [OF assms] tick x_fold_fire show ?thesis by simp
qed

text \<open>The first shape of the reachable state, through one tick and then three more events.\<close>

theorem gravity_step_witness:
  "well_formed demo_game \<and> 0 \<in> set (shapes demo_game)
   \<and> y (objs demo_game ! 0) = 695 \<and> gravity demo_game * 10 = 10
   \<and> y (objs (gravityPhase 10 demo_game) ! 0) = 705
   \<and> x (objs (gravityPhase 10 demo_game) ! 0) = 10
   \<and> 0 \<in> set (shapes (spawnPhase 0 demo_rnd demo_game))
   \<and> y (objs (update 0 10 demo_rnd demo_game) ! 0) = 705
   \<and> x (objs (update 0 10 demo_rnd demo_game) ! 0) = 10
   \<and> 0 < length (objs demo_game)
   \<and> x (objs (fold fire [Tick 0 10 demo_rnd, GravInc, ShapeClick 0, Resize 640 480] demo_game) ! 0) = 10"
proof -
  have g1: "spawnPhase 0 demo_rnd demo_game = demo_game"
    by (simp add: spawnPhase_def spawnInterval_def demo_game_fields)
  from gravity_step [OF demo_game_well_formed, of 10 0 demo_rnd
      "[Tick 0 10 demo_rnd, GravInc, ShapeClick 0, Resize 640 480]"]
  show ?thesis
    unfolding g1 by (simp add: demo_game_well_formed demo_game_fields)
qed

subsection \<open>C10: removals keep the order\<close>

text \<open>
  Claim C10. The cull is a filter of the collection, so the collection after a tick is a
  subsequence of the one after the spawn step; \<^verbatim>\<open>_removeShape\<close> deletes at most the
  first occurrence of the shape and keeps the rest in order; whatever the event, the collection
  afterwards is a subsequence of the old one with the next fresh reference appended; and
  after any sequence of events, the shapes that existed at the start and are still in the
  collection are in the order they had.
\<close>

theorem removal_keeps_order:
  "shapes (cullPhase g) = filter (\<lambda>r. y (objs g ! r) \<le> height g + 100) (shapes g)
   \<and> subseq (shapes (update now delta rnd g)) (shapes (spawnPhase now rnd g))
   \<and> shapes (removeShape s g) = remove1 s (shapes g)
   \<and> subseq (shapes (removeShape s g)) (shapes g)
   \<and> subseq (shapes (fire e g)) (shapes g @ [length (objs g)])
   \<and> subseq (filter (\<lambda>r. r < length (objs g)) (shapes (fold fire es g))) (shapes g)"
proof -
  have "shapes (cullPhase g) = filter (\<lambda>r. y (objs g ! r) \<le> height g + 100) (shapes g)"
    by (simp add: shapes_cullPhase not_less)
  moreover have "subseq (shapes (update now delta rnd g)) (shapes (spawnPhase now rnd g))"
    by (simp add: shapes_update)
  moreover have "subseq (shapes (removeShape s g)) (shapes g)"
    by (simp add: shapes_removeShape subseq_remove1)
  ultimately show ?thesis
    by (simp add: shapes_removeShape subseq_shapes_fire subseq_old_shapes_fold_fire)
qed

end
